theory Spec2Isabelle
  imports Complex_Main
begin

section \<open>xUpload: the local relevance engine\<close>

text \<open>
  A shallow embedding of the ranking code of xUpload: \<^verbatim>\<open>cosine\<close> and \<^verbatim>\<open>search\<close>
  (vectordb.ts), \<^verbatim>\<open>tokenize\<close> and \<^verbatim>\<open>vectorize\<close> (embeddings.ts, as quoted in the
  embeddings documentation), and \<^verbatim>\<open>computePathNameScore\<close>, \<^verbatim>\<open>computeContentOverlap\<close>
  and \<^verbatim>\<open>handleMatch\<close> (background script).

  Conventions of the embedding.
  \<^item> A JavaScript number is a real number or \<^verbatim>\<open>NaN\<close>. \<^verbatim>\<open>NaN\<close> is kept because
    reading an array past its end gives \<^verbatim>\<open>undefined\<close>, and arithmetic on
    \<^verbatim>\<open>undefined\<close> gives \<^verbatim>\<open>NaN\<close>. The infinities are not modelled. The rounding of
    doubles is modelled where a property is about the exact value of a result: in the
    quotient of the folder boost. Elsewhere an arithmetic expression of the source stands
    for its value over the reals.
  \<^item> A JavaScript string is a list of code units below 256, one \<^typ>\<open>char\<close> each.
  \<^item> A \<^verbatim>\<open>Map\<close> is an association list in insertion order, a \<^verbatim>\<open>Set\<close> a
    duplicate-free list in insertion order.
  \<^item> The IndexedDB stores, the clock and the vocabulary globals are explicit arguments.
  \<^item> Record fields keep the source's names; a field whose name is taken (by a HOL
    constant or by an earlier record) carries a prefix or suffix.
\<close>

subsection \<open>Numbers\<close>

datatype number = Fin real | NaN

instantiation number :: "{zero, plus, minus, times, inverse, ord}"
begin

definition zero_number :: number where
  "zero_number = Fin 0"

fun plus_number :: "number \<Rightarrow> number \<Rightarrow> number" where
  "plus_number (Fin x) (Fin y) = Fin (x + y)"
| "plus_number _ _ = NaN"

fun minus_number :: "number \<Rightarrow> number \<Rightarrow> number" where
  "minus_number (Fin x) (Fin y) = Fin (x - y)"
| "minus_number _ _ = NaN"

fun times_number :: "number \<Rightarrow> number \<Rightarrow> number" where
  "times_number (Fin x) (Fin y) = Fin (x * y)"
| "times_number _ _ = NaN"

text \<open>
  A quotient by zero would be an infinity (or \<^verbatim>\<open>NaN\<close>) in JavaScript; every division
  of the code modelled here is guarded against a zero divisor, so the case is never
  reached with a real dividend and is mapped to \<^const>\<open>NaN\<close>.
\<close>

fun divide_number :: "number \<Rightarrow> number \<Rightarrow> number" where
  "divide_number (Fin x) (Fin y) = (if y = 0 then NaN else Fin (x / y))"
| "divide_number _ _ = NaN"

definition inverse_number :: "number \<Rightarrow> number" where
  "inverse_number x = divide (Fin 1) x"

text \<open>Every comparison with \<^verbatim>\<open>NaN\<close> is false.\<close>

fun less_number :: "number \<Rightarrow> number \<Rightarrow> bool" where
  "less_number (Fin x) (Fin y) = (x < y)"
| "less_number _ _ = False"

fun less_eq_number :: "number \<Rightarrow> number \<Rightarrow> bool" where
  "less_eq_number (Fin x) (Fin y) = (x \<le> y)"
| "less_eq_number _ _ = False"

instance ..

end

fun Math_sqrt :: "number \<Rightarrow> number" where
  "Math_sqrt (Fin x) = (if x < 0 then NaN else Fin (sqrt x))"
| "Math_sqrt NaN = NaN"

text \<open>\<^verbatim>\<open>Math.max(...xs)\<close> on a non-empty argument list: \<^verbatim>\<open>NaN\<close> if any argument is.\<close>

fun Math_max2 :: "number \<Rightarrow> number \<Rightarrow> number" where
  "Math_max2 (Fin x) (Fin y) = Fin (max x y)"
| "Math_max2 _ _ = NaN"

fun Math_max :: "number list \<Rightarrow> number" where
  "Math_max [] = NaN"
| "Math_max [x] = x"
| "Math_max (x # y # ys) = Math_max2 x (Math_max (y # ys))"

text \<open>\<^verbatim>\<open>b[i]\<close> used as an operand: \<^verbatim>\<open>undefined\<close> past the end, hence \<^verbatim>\<open>NaN\<close>.\<close>

definition js_nth :: "real list \<Rightarrow> nat \<Rightarrow> number" where
  "js_nth xs i = (if i < length xs then Fin (xs ! i) else NaN)"

text \<open>
  The double nearest to a real number, ties to the even significand (the rounding of
  every arithmetic operation on doubles): a significand of 53 bits at the exponent of
  the number. Exact for the normal range of doubles; subnormal results and overflow are
  not modelled.
\<close>

definition round_half_even :: "real \<Rightarrow> int" where
  "round_half_even y =
     (let f = \<lfloor>y\<rfloor>; d = y - of_int f
      in if d < 1 / 2 then f else if 1 / 2 < d then f + 1 else if even f then f else f + 1)"

definition round_double :: "real \<Rightarrow> real" where
  "round_double x =
     (if x = 0 then 0
      else (let e = \<lfloor>log 2 \<bar>x\<bar>\<rfloor>; ulp = 2 powr (of_int e - 52)
            in sgn x * of_int (round_half_even (\<bar>x\<bar> / ulp)) * ulp))"

subsection \<open>Strings\<close>

definition toLowerCase_char :: "char \<Rightarrow> char" where
  "toLowerCase_char c =
     (let n = (of_char c :: nat)
      in if (65 \<le> n \<and> n \<le> 90) \<or> (192 \<le> n \<and> n \<le> 222 \<and> n \<noteq> 215)
         then char_of (n + 32) else c)"

definition toLowerCase :: "string \<Rightarrow> string" where
  "toLowerCase s = map toLowerCase_char s"

definition is_whitespace :: "char \<Rightarrow> bool" where
  "is_whitespace c = ((of_char c :: nat) \<in> {9, 10, 11, 12, 13, 32, 160})"

definition trim :: "string \<Rightarrow> string" where
  "trim s = rev (dropWhile is_whitespace (rev (dropWhile is_whitespace s)))"

text \<open>\<^verbatim>\<open>s.split(c)\<close> for a one-character separator: never empty.\<close>

fun split :: "char \<Rightarrow> string \<Rightarrow> string list" where
  "split c [] = [[]]"
| "split c (x # xs) =
     (if x = c then [] # split c xs
      else (case split c xs of [] \<Rightarrow> [[x]] | p # ps \<Rightarrow> (x # p) # ps))"

fun join :: "string \<Rightarrow> string list \<Rightarrow> string" where
  "join sep [] = []"
| "join sep [x] = x"
| "join sep (x # y # ys) = x @ sep @ join sep (y # ys)"

definition startsWith :: "string \<Rightarrow> string \<Rightarrow> bool" where
  "startsWith s p = (take (length p) s = p)"

definition endsWith :: "string \<Rightarrow> string \<Rightarrow> bool" where
  "endsWith s p = (length p \<le> length s \<and> drop (length s - length p) s = p)"

text \<open>\<^verbatim>\<open>s.replace(pat, by)\<close> with a string pattern: the first occurrence only.\<close>

fun replace_first :: "string \<Rightarrow> string \<Rightarrow> string \<Rightarrow> string" where
  "replace_first pat rep [] = (if pat = [] then rep else [])"
| "replace_first pat rep (x # xs) =
     (if take (length pat) (x # xs) = pat then rep @ drop (length pat) (x # xs)
      else x # replace_first pat rep xs)"

text \<open>A \<^verbatim>\<open>Set\<close> built from an array, and \<^verbatim>\<open>Map.get\<close> / \<^verbatim>\<open>Map.set\<close>.\<close>

definition Set_add :: "'a list \<Rightarrow> 'a \<Rightarrow> 'a list" where
  "Set_add s x = (if x \<in> set s then s else s @ [x])"

definition new_Set :: "'a list \<Rightarrow> 'a list" where
  "new_Set xs = foldl Set_add [] xs"

fun Map_set :: "('k \<times> 'v) list \<Rightarrow> 'k \<Rightarrow> 'v \<Rightarrow> ('k \<times> 'v) list" where
  "Map_set [] k v = [(k, v)]"
| "Map_set ((k', v') # m) k v = (if k' = k then (k, v) # m else (k', v') # Map_set m k v)"

definition Map_get :: "('k \<times> 'v) list \<Rightarrow> 'k \<Rightarrow> 'v option" where
  "Map_get m k = map_of m k"

subsection \<open>Data model\<close>

record VectorRecord =
  id_rec :: string
  name :: string
  path :: string
  type :: string
  size_rec :: real
  lastModified :: real
  vector :: "real list"
  denseVector :: "real list option"
  textPreview :: string

record SearchResult =
  srecord :: VectorRecord
  score :: number

record UploadHistoryEntry =
  fileId :: string
  fileName :: string
  fileType :: string
  websiteHost :: string
  pageUrl :: string
  pageTitle :: string
  uploadContext :: string
  timestamp :: real

record MatchRequest =
  req_context :: string
  req_accept :: "string option"
  req_pageUrl :: "string option"

record MatchResultItem =
  res_id :: string
  res_name :: string
  res_path :: string
  res_type :: string
  res_score :: number
  res_historyCount :: nat

subsection \<open>Tokenizer (embeddings.ts)\<close>

definition is_alnum :: "char \<Rightarrow> bool" where
  "is_alnum c =
     (let n = (of_char c :: nat) in (97 \<le> n \<and> n \<le> 122) \<or> (48 \<le> n \<and> n \<le> 57))"

definition is_cjk :: "char \<Rightarrow> bool" where
  "is_cjk c =
     (let n = (of_char c :: nat)
      in (0x4e00 \<le> n \<and> n \<le> 0x9fff) \<or> (0x3400 \<le> n \<and> n \<le> 0x4dbf))"

text \<open>
  \<^verbatim>\<open>s.match(/[a-z0-9]+/g) || []\<close>: the maximal runs, left to right. The characters
  of the two CJK ranges are code units above 255: the steps for them are written as in
  the source, and no string of this embedding reaches them.
\<close>

fun match_alnum :: "string \<Rightarrow> string \<Rightarrow> string list" where
  "match_alnum cur [] = (if cur = [] then [] else [cur])"
| "match_alnum cur (c # cs) =
     (if is_alnum c then match_alnum (cur @ [c]) cs
      else (if cur = [] then [] else [cur]) @ match_alnum [] cs)"

definition tokenize :: "string \<Rightarrow> string list" where
  "tokenize text =
     (let normalized = trim (toLowerCase text);
          words = match_alnum [] normalized;
          cjk = map (\<lambda>c. [c]) (filter is_cjk normalized);
          bigrams = map (\<lambda>i. cjk ! i @ cjk ! (i + 1)) [0..<length cjk - 1]
      in words @ cjk @ bigrams)"

subsection \<open>Vocabulary and vectorizer (embeddings.ts)\<close>

text \<open>
  The global \<^verbatim>\<open>vocabulary: Map<string, number>\<close> is filled by \<^verbatim>\<open>buildVocabulary\<close>,
  which gives the k-th term it inserts the index k (an imported snapshot restores such a
  map). It is represented by the list of its terms in insertion order:
  \<^verbatim>\<open>vocabulary.size\<close> is the length of the list and \<^verbatim>\<open>vocabulary.get(term)\<close> the
  position of the term, so that every index is below the size. \<^verbatim>\<open>idfValues\<close> is a
  \<^verbatim>\<open>Map\<close>.
\<close>

fun vocabulary_get :: "string list \<Rightarrow> string \<Rightarrow> nat option" where
  "vocabulary_get [] t = None"
| "vocabulary_get (x # xs) t = (if x = t then Some 0 else map_option Suc (vocabulary_get xs t))"

definition count_up :: "(string \<times> nat) list \<Rightarrow> string \<Rightarrow> (string \<times> nat) list" where
  "count_up m k = Map_set m k ((case Map_get m k of None \<Rightarrow> 0 | Some c \<Rightarrow> c) + 1)"

definition buildVocabulary :: "string list list \<Rightarrow> string list \<times> (string \<times> real) list" where
  "buildVocabulary docs =
     (let N = length docs;
          df = foldl (\<lambda>df doc. foldl count_up df (new_Set doc)) [] docs
      in (map fst df,
          map (\<lambda>(term, count). (term, ln ((real N + 1) / (real count + 1)) + 1)) df))"

definition vectorize :: "string list \<Rightarrow> (string \<times> real) list \<Rightarrow> string list \<Rightarrow> real list" where
  "vectorize vocabulary idfValues tokens =
     (let dim = length vocabulary
      in if dim = 0 then []
         else
           (let vec0 = replicate dim (0::real);
                tf = foldl count_up [] tokens;
                maxTf = foldr max (map snd tf) 1;
                vec = foldl (\<lambda>vec (term, count).
                         (case vocabulary_get vocabulary term of
                            None \<Rightarrow> vec
                          | Some idx \<Rightarrow>
                              vec[idx := (real count / real maxTf) *
                                 (case Map_get idfValues term of
                                    None \<Rightarrow> 1
                                  | Some v \<Rightarrow> if v = 0 then 1 else v)]))
                       vec0 tf;
                norm = sqrt (foldl (\<lambda>norm v. norm + v * v) 0 vec)
            in if norm > 0 then map (\<lambda>v. v / norm) vec else vec))"

subsection \<open>Similarity search (vectordb.ts)\<close>

text \<open>The body of the loop of \<^verbatim>\<open>cosine\<close>, at index \<open>i\<close>.\<close>

definition cosine_step ::
  "real list \<Rightarrow> real list \<Rightarrow> number \<times> number \<times> number \<Rightarrow> nat \<Rightarrow> number \<times> number \<times> number" where
  "cosine_step a b =
     (\<lambda>(dotAB, normA, normB) i.
        (dotAB + js_nth a i * js_nth b i,
         normA + js_nth a i * js_nth a i,
         normB + js_nth b i * js_nth b i))"

definition cosine :: "real list \<Rightarrow> real list \<Rightarrow> number" where
  "cosine a b =
     (let (dotAB, normA, normB) = foldl (cosine_step a b) (0, 0, 0) [0..<length a]
      in if normA = Fin 0 \<or> normB = Fin 0 then Fin 0
         else dotAB / (Math_sqrt normA * Math_sqrt normB))"

text \<open>
  \<^verbatim>\<open>Array.prototype.sort(comparefn)\<close>. The sort is stable, and a comparator result
  \<^verbatim>\<open>NaN\<close> counts as \<^verbatim>\<open>+0\<close>. For a comparator that is a consistent ordering of the
  elements the result is the unique stable sorted arrangement; this insertion sort
  computes it. For other comparators (here: a score \<^verbatim>\<open>NaN\<close>) the language leaves the
  order to the implementation, engines differ on three or more elements, and the
  insertion sort is one admissible behaviour. The properties below exclude \<^verbatim>\<open>NaN\<close>
  scores, or do not depend on the order, or sort two elements, which a stable sort leaves
  in place when the comparator gives \<^verbatim>\<open>NaN\<close>.
\<close>

fun sort_insert :: "('a \<Rightarrow> 'a \<Rightarrow> number) \<Rightarrow> 'a \<Rightarrow> 'a list \<Rightarrow> 'a list" where
  "sort_insert comparefn x [] = [x]"
| "sort_insert comparefn x (y # ys) =
     (if Fin 0 < comparefn x y then y # sort_insert comparefn x ys else x # y # ys)"

definition Array_sort :: "('a \<Rightarrow> 'a \<Rightarrow> number) \<Rightarrow> 'a list \<Rightarrow> 'a list" where
  "Array_sort comparefn xs = foldr (sort_insert comparefn) xs []"

text \<open>\<^verbatim>\<open>"." + r.name.split(".").pop()?.toLowerCase()\<close>\<close>

definition pop_ext :: "string \<Rightarrow> string" where
  "pop_ext nm =
     (case rev (split (CHR ''.'') nm) of
        [] \<Rightarrow> ''.undefined''
      | l # _ \<Rightarrow> ''.'' @ toLowerCase l)"

definition accept_match :: "string list \<Rightarrow> VectorRecord \<Rightarrow> bool" where
  "accept_match accepts r =
     (let ext = pop_ext (name r);
          mime = toLowerCase (type r)
      in list_ex (\<lambda>a. a = ext \<or> a = mime \<or>
                       (endsWith a ''/*'' \<and> startsWith mime (replace_first ''/*'' ''/'' a)))
                 accepts)"

text \<open>
  The first half of \<^verbatim>\<open>search\<close> (and of \<^verbatim>\<open>denseSearch\<close>): the records that the
  accept filter leaves. An absent or empty \<^verbatim>\<open>acceptFilter\<close> is falsy.
\<close>

definition accept_filtered :: "string \<Rightarrow> VectorRecord list \<Rightarrow> VectorRecord list" where
  "accept_filtered acceptFilter all =
     (let accepts = map (\<lambda>s. toLowerCase (trim s)) (split (CHR '','') acceptFilter)
      in filter (accept_match accepts) all)"

definition search_candidates :: "VectorRecord list \<Rightarrow> string option \<Rightarrow> VectorRecord list" where
  "search_candidates all acceptFilter =
     (case acceptFilter of
        None \<Rightarrow> all
      | Some f \<Rightarrow>
          if f = [] then all
          else (let filtered = accept_filtered f all
                in if length filtered > 0 then filtered else all))"

definition scored :: "real list \<Rightarrow> VectorRecord list \<Rightarrow> SearchResult list" where
  "scored queryVector candidates =
     map (\<lambda>record. \<lparr>srecord = record, score = cosine queryVector (vector record)\<rparr>) candidates"

definition search ::
  "real list \<Rightarrow> VectorRecord list \<Rightarrow> nat \<Rightarrow> string option \<Rightarrow> SearchResult list" where
  "search queryVector all topN acceptFilter =
     filter (\<lambda>r. Fin 0 < score r)
       (take topN
          (Array_sort (\<lambda>a b. score b - score a)
             (scored queryVector (search_candidates all acceptFilter))))"

text \<open>The last three steps of \<^verbatim>\<open>search\<close>, on any list of scored candidates.\<close>

definition top_results :: "nat \<Rightarrow> SearchResult list \<Rightarrow> SearchResult list" where
  "top_results topN xs =
     filter (\<lambda>r. Fin 0 < score r) (take topN (Array_sort (\<lambda>a b. score b - score a) xs))"

text \<open>
  The records come from \<^verbatim>\<open>getAll()\<close>, which returns them in ascending order of their
  key \<^verbatim>\<open>id\<close>; strings are compared code unit by code unit. A list that \<^verbatim>\<open>getAll()\<close>
  can return satisfies \<open>getAll_ordered\<close>.
\<close>

fun key_less :: "string \<Rightarrow> string \<Rightarrow> bool" where
  "key_less [] [] = False"
| "key_less [] (y # ys) = True"
| "key_less (x # xs) [] = False"
| "key_less (x # xs) (y # ys) =
     ((of_char x :: nat) < of_char y \<or> (x = y \<and> key_less xs ys))"

definition getAll_ordered :: "VectorRecord list \<Rightarrow> bool" where
  "getAll_ordered all = sorted_wrt (\<lambda>a b. key_less (id_rec a) (id_rec b)) all"

subsection \<open>Keyword overlap (background script)\<close>

text \<open>
  \<^verbatim>\<open>tokenizeFiltered\<close> (embeddings.ts: \<^verbatim>\<open>tokenize\<close>, then stop words and short terms
  removed) is an argument of the functions that call it.
\<close>

text \<open>\<^verbatim>\<open>filePath.replace(/[/\\._-]/g, " ")\<close>\<close>

definition replace_separators :: "string \<Rightarrow> string" where
  "replace_separators filePath =
     map (\<lambda>c. if c \<in> {CHR ''/'', CHR 0x5C, CHR ''.'', CHR ''_'', CHR ''-''} then CHR '' '' else c)
       filePath"

definition computePathNameScore :: "(string \<Rightarrow> string list) \<Rightarrow> string \<Rightarrow> string \<Rightarrow> real" where
  "computePathNameScore tokenizeFiltered filePath context =
     (let pathTokens = new_Set (tokenizeFiltered (replace_separators filePath));
          contextTokens = new_Set (tokenizeFiltered context)
      in if length pathTokens = 0 \<or> length contextTokens = 0 then 0
         else
           (let matches = length (filter (\<lambda>t. t \<in> set contextTokens) pathTokens);
                minSize = min (length pathTokens) (length contextTokens)
            in real matches / real minSize))"

definition computeContentOverlap :: "(string \<Rightarrow> string list) \<Rightarrow> string \<Rightarrow> string \<Rightarrow> real" where
  "computeContentOverlap tokenizeFiltered textPreview' context =
     (let fileTokens = new_Set (tokenizeFiltered textPreview');
          contextTokens = new_Set (tokenizeFiltered context)
      in if length fileTokens = 0 \<or> length contextTokens = 0 then 0
         else
           (let matches = length (filter (\<lambda>t. t \<in> set fileTokens) contextTokens);
                minSize = min (length fileTokens) (length contextTokens)
            in real matches / real minSize))"

subsection \<open>Upload history (vectordb.ts)\<close>

text \<open>
  The history store is the list of its entries in key order, the order in which they
  were added (the key is auto-incremented). \<^verbatim>\<open>index.getAll(websiteHost, limit)\<close> returns
  the first \<^verbatim>\<open>limit\<close> entries of the host in that order, and all of them for the limit 0.
\<close>

definition getHistoryByHost ::
  "UploadHistoryEntry list \<Rightarrow> string \<Rightarrow> nat \<Rightarrow> UploadHistoryEntry list" where
  "getHistoryByHost store host limit =
     (let entries = filter (\<lambda>h. websiteHost h = host) store
      in if limit = 0 then entries else take limit entries)"

subsection \<open>The rank blender: \<^verbatim>\<open>handleMatch\<close> (background script)\<close>

text \<open>
  \<^verbatim>\<open>parts.length > 1 ? parts.slice(0, -1).join("/") : ""\<close> with
  \<^verbatim>\<open>parts = p.split("/")\<close>: used for a history entry's \<^verbatim>\<open>fileId\<close> and for a
  candidate's \<^verbatim>\<open>path\<close>.
\<close>

definition folder_of :: "string \<Rightarrow> string" where
  "folder_of p =
     (let parts = split (CHR ''/'') p
      in if length parts > 1 then join ''/'' (butlast parts) else [])"

definition folderFreq_of :: "UploadHistoryEntry list \<Rightarrow> (string \<times> nat) list" where
  "folderFreq_of history = foldl (\<lambda>folderFreq h. count_up folderFreq (folder_of (fileId h))) [] history"

definition totalFolderUploads_of :: "(string \<times> nat) list \<Rightarrow> nat" where
  "totalFolderUploads_of folderFreq = foldl (\<lambda>a b. a + b) 0 (map snd folderFreq)"

definition historyMap_add ::
  "(string \<times> nat \<times> real) list \<Rightarrow> UploadHistoryEntry \<Rightarrow> (string \<times> nat \<times> real) list" where
  "historyMap_add historyMap h =
     (case Map_get historyMap (fileId h) of
        None \<Rightarrow> Map_set historyMap (fileId h) (1, timestamp h)
      | Some (count, lastTs) \<Rightarrow>
          Map_set historyMap (fileId h) (count + 1, max lastTs (timestamp h)))"

definition historyMap_of :: "UploadHistoryEntry list \<Rightarrow> (string \<times> nat \<times> real) list" where
  "historyMap_of history = foldl historyMap_add [] history"

definition ONE_DAY :: real where
  "ONE_DAY = 24 * 60 * 60 * 1000"

definition historyBoost_of :: "(nat \<times> real) option \<Rightarrow> real \<Rightarrow> real" where
  "historyBoost_of hist now =
     (case hist of
        None \<Rightarrow> 0
      | Some (count, lastTs) \<Rightarrow>
          (let daysAgo = (now - lastTs) / ONE_DAY in max 0.1 (1.0 - daysAgo / 90)))"

definition historyCount_of :: "(nat \<times> real) option \<Rightarrow> nat" where
  "historyCount_of hist = (case hist of None \<Rightarrow> 0 | Some (count, lastTs) \<Rightarrow> count)"

text \<open>
  The quotient of two counts is a division of doubles: the counts are exact, the quotient
  is rounded.
\<close>

definition folderBoost_of :: "(string \<times> nat) list \<Rightarrow> nat \<Rightarrow> string \<Rightarrow> real" where
  "folderBoost_of folderFreq totalFolderUploads candidateFolder =
     (if totalFolderUploads > 0
      then round_double
             (real (case Map_get folderFreq candidateFolder of None \<Rightarrow> 0 | Some c \<Rightarrow> c) /
              real totalFolderUploads)
      else 0)"

record Weights =
  w_tfidf :: real
  w_history :: real
  w_path :: real
  w_content :: real
  w_pathMemory :: real

definition weights_of :: "bool \<Rightarrow> bool \<Rightarrow> Weights" where
  "weights_of tfidfUseful hasHistory =
     (if tfidfUseful
      then (if hasHistory
            then \<lparr>w_tfidf = 0.42, w_history = 0.28, w_path = 0.14, w_content = 0.08, w_pathMemory = 0.08\<rparr>
            else \<lparr>w_tfidf = 0.56, w_history = 0.00, w_path = 0.22, w_content = 0.14, w_pathMemory = 0.08\<rparr>)
      else (if hasHistory
            then \<lparr>w_tfidf = 0.00, w_history = 0.36, w_path = 0.30, w_content = 0.20, w_pathMemory = 0.14\<rparr>
            else \<lparr>w_tfidf = 0.00, w_history = 0.00, w_path = 0.44, w_content = 0.42, w_pathMemory = 0.14\<rparr>))"

text \<open>An element of \<^verbatim>\<open>ranked\<close>; its \<^verbatim>\<open>debug\<close> field is only logged and is left out.\<close>

record Ranked =
  rk_record :: VectorRecord
  rk_score :: number
  rk_historyCount :: nat

text \<open>The callback of \<^verbatim>\<open>allRecords.map\<close>.\<close>

definition rank_record ::
  "(string \<Rightarrow> string list) \<Rightarrow> string \<Rightarrow> bool \<Rightarrow> (string \<times> nat) list \<Rightarrow> nat \<Rightarrow>
   (string \<times> nat \<times> real) list \<Rightarrow> real \<Rightarrow> SearchResult \<Rightarrow> Ranked" where
  "rank_record tokenizeFiltered context tfidfUseful folderFreq totalFolderUploads historyMap now r =
     (let tfidfScore = score r;
          hist = Map_get historyMap (id_rec (srecord r));
          historyCount = historyCount_of hist;
          historyBoost = historyBoost_of hist now;
          pathNameScore = computePathNameScore tokenizeFiltered (path (srecord r)) context;
          contentOverlap = computeContentOverlap tokenizeFiltered (textPreview (srecord r)) context;
          candidateFolder = folder_of (path (srecord r));
          folderBoost = folderBoost_of folderFreq totalFolderUploads candidateFolder;
          hasHistory = (historyBoost > 0);
          weights = weights_of tfidfUseful hasHistory;
          finalScore =
            tfidfScore * Fin (w_tfidf weights) +
            Fin (historyBoost * w_history weights) +
            Fin (pathNameScore * w_path weights) +
            Fin (contentOverlap * w_content weights) +
            Fin (folderBoost * w_pathMemory weights)
      in \<lparr>rk_record = srecord r, rk_score = finalScore, rk_historyCount = historyCount\<rparr>)"

text \<open>The steps of \<^verbatim>\<open>handleMatch\<close> up to the candidate list \<^verbatim>\<open>allRecords\<close>.\<close>

definition match_tfidfResults ::
  "real list \<Rightarrow> VectorRecord list \<Rightarrow> string option \<Rightarrow> SearchResult list" where
  "match_tfidfResults queryVec all accept =
     (if length queryVec > 0 then search queryVec all 15 accept else [])"

definition match_maxTfidf :: "SearchResult list \<Rightarrow> number" where
  "match_maxTfidf tfidfResults =
     (if length tfidfResults > 0 then Math_max (map score tfidfResults) else Fin 0)"

definition match_allRecords ::
  "real list \<Rightarrow> VectorRecord list \<Rightarrow> string option \<Rightarrow> SearchResult list" where
  "match_allRecords queryVec all accept =
     (let tfidfResults = match_tfidfResults queryVec all accept;
          maxTfidf = match_maxTfidf tfidfResults;
          tfidfUseful = (Fin 0.05 < maxTfidf)
      in if \<not> tfidfUseful then map (\<lambda>record. \<lparr>srecord = record, score = Fin 0\<rparr>) all
         else tfidfResults)"

text \<open>
  \<^verbatim>\<open>new URL(req.pageUrl).hostname\<close> is the argument \<open>hostname\<close>, \<^const>\<open>None\<close> where the
  constructor throws.
\<close>

definition match_pageHost :: "(string \<Rightarrow> string option) \<Rightarrow> string option \<Rightarrow> string" where
  "match_pageHost hostname url =
     (case url of
        None \<Rightarrow> []
      | Some u \<Rightarrow> if u = [] then [] else (case hostname u of None \<Rightarrow> [] | Some h \<Rightarrow> h))"

definition match_history ::
  "UploadHistoryEntry list \<Rightarrow> string \<Rightarrow> UploadHistoryEntry list" where
  "match_history historyStore pageHost =
     (if pageHost \<noteq> [] then getHistoryByHost historyStore pageHost 50 else [])"

definition match_ranked ::
  "(string \<Rightarrow> string list) \<Rightarrow> (string \<Rightarrow> string option) \<Rightarrow> string list \<Rightarrow> (string \<times> real) list \<Rightarrow>
   VectorRecord list \<Rightarrow> UploadHistoryEntry list \<Rightarrow> real \<Rightarrow> MatchRequest \<Rightarrow> Ranked list" where
  "match_ranked tokenizeFiltered hostname vocabulary idfValues all historyStore now req =
     (let queryTokens = tokenize (req_context req);
          queryVec = vectorize vocabulary idfValues queryTokens;
          tfidfResults = match_tfidfResults queryVec all (req_accept req);
          tfidfUseful = (Fin 0.05 < match_maxTfidf tfidfResults);
          allRecords = match_allRecords queryVec all (req_accept req);
          pageHost = match_pageHost hostname (req_pageUrl req);
          history = match_history historyStore pageHost;
          folderFreq = folderFreq_of history;
          totalFolderUploads = totalFolderUploads_of folderFreq;
          historyMap = historyMap_of history
      in map (rank_record tokenizeFiltered (req_context req) tfidfUseful folderFreq
                totalFolderUploads historyMap now) allRecords)"

definition handleMatch ::
  "(string \<Rightarrow> string list) \<Rightarrow> (string \<Rightarrow> string option) \<Rightarrow> string list \<Rightarrow> (string \<times> real) list \<Rightarrow>
   VectorRecord list \<Rightarrow> UploadHistoryEntry list \<Rightarrow> real \<Rightarrow> MatchRequest \<Rightarrow> MatchResultItem list" where
  "handleMatch tokenizeFiltered hostname vocabulary idfValues all historyStore now req =
     (let ranked = Array_sort (\<lambda>a b. rk_score b - rk_score a)
                     (match_ranked tokenizeFiltered hostname vocabulary idfValues all
                        historyStore now req);
          top = filter (\<lambda>r. Fin 0 < rk_score r) (take 5 ranked)
      in map (\<lambda>r. \<lparr>res_id = id_rec (rk_record r), res_name = name (rk_record r),
                    res_path = path (rk_record r), res_type = type (rk_record r),
                    res_score = rk_score r, res_historyCount = rk_historyCount r\<rparr>) top)"

subsection \<open>The search of the specification\<close>

text \<open>
  The specification's wording of the last step of \<^verbatim>\<open>search\<close>: sort descending by
  score, drop the entries with \<^verbatim>\<open>score <= 0\<close>, return the top \<^verbatim>\<open>N\<close>. The code
  takes the top \<^verbatim>\<open>N\<close> first and keeps the entries with \<^verbatim>\<open>score > 0\<close>.
\<close>

definition search_spec ::
  "real list \<Rightarrow> VectorRecord list \<Rightarrow> nat \<Rightarrow> string option \<Rightarrow> SearchResult list" where
  "search_spec queryVector all topN acceptFilter =
     take topN
       (filter (\<lambda>r. \<not> score r \<le> Fin 0)
          (Array_sort (\<lambda>a b. score b - score a)
             (scored queryVector (search_candidates all acceptFilter))))"

definition top_results_spec :: "nat \<Rightarrow> SearchResult list \<Rightarrow> SearchResult list" where
  "top_results_spec topN xs =
     take topN (filter (\<lambda>r. \<not> score r \<le> Fin 0) (Array_sort (\<lambda>a b. score b - score a) xs))"

subsection \<open>Auxiliary notions and example data\<close>

text \<open>A record with its stored vector cut to the length of the query vector.\<close>

definition truncated :: "real list \<Rightarrow> VectorRecord \<Rightarrow> VectorRecord" where
  "truncated q r = r\<lparr>vector := take (length q) (vector r)\<rparr>"

text \<open>The real value of a number that is not \<^verbatim>\<open>NaN\<close>.\<close>

fun the_real :: "number \<Rightarrow> real" where
  "the_real (Fin x) = x"
| "the_real NaN = 0"

definition example_file :: "string \<Rightarrow> string \<Rightarrow> real list \<Rightarrow> VectorRecord" where
  "example_file p mime vec =
     \<lparr>id_rec = p, name = p, path = p, type = mime, size_rec = 0, lastModified = 0,
      vector = vec, denseVector = None, textPreview = []\<rparr>"

definition example_entry :: "string \<Rightarrow> string \<Rightarrow> real \<Rightarrow> UploadHistoryEntry" where
  "example_entry fid host ts =
     \<lparr>fileId = fid, fileName = fid, fileType = [], websiteHost = host, pageUrl = [],
      pageTitle = [], uploadContext = [], timestamp = ts\<rparr>"

text \<open>The uploads of the comment in \<^verbatim>\<open>handleMatch\<close>, and one repeated upload.\<close>

definition example_history :: "UploadHistoryEntry list" where
  "example_history =
     [example_entry ''23S/OS/HW1.pdf'' ''a.edu'' 0,
      example_entry ''23S/OS/HW2.pdf'' ''a.edu'' (45 * ONE_DAY),
      example_entry ''23S/CS/lab1.pdf'' ''a.edu'' (60 * ONE_DAY),
      example_entry ''23S/OS/HW1.pdf'' ''a.edu'' (30 * ONE_DAY)]"

text \<open>Six uploads from six folders, and fifty uploads of one file followed by another file.\<close>

definition example_six :: "UploadHistoryEntry list" where
  "example_six =
     [example_entry ''f1/a.pdf'' ''a.edu'' 1, example_entry ''f2/a.pdf'' ''a.edu'' 2,
      example_entry ''f3/a.pdf'' ''a.edu'' 3, example_entry ''f4/a.pdf'' ''a.edu'' 4,
      example_entry ''f5/a.pdf'' ''a.edu'' 5, example_entry ''f6/a.pdf'' ''a.edu'' 6]"

definition example_store51 :: "UploadHistoryEntry list" where
  "example_store51 =
     map (\<lambda>i. example_entry ''a.pdf'' ''a.edu'' (real i)) [0..<50] @
     [example_entry ''b.pdf'' ''a.edu'' 50]"

section \<open>Properties\<close>

subsection \<open>Sets and maps\<close>

lemma set_foldl_Set_add: "set (foldl Set_add acc xs) = set acc \<union> set xs"
  by (induction xs arbitrary: acc) (auto simp: Set_add_def)

lemma distinct_foldl_Set_add: "distinct acc \<Longrightarrow> distinct (foldl Set_add acc xs)"
  by (induction xs arbitrary: acc) (auto simp: Set_add_def)

lemma set_new_Set: "set (new_Set xs) = set xs"
  by (simp add: new_Set_def set_foldl_Set_add)

lemma distinct_new_Set: "distinct (new_Set xs)"
  by (simp add: new_Set_def distinct_foldl_Set_add)

lemma length_new_Set: "length (new_Set xs) = card (set xs)"
  using distinct_card [OF distinct_new_Set, of xs] by (simp add: set_new_Set)

lemma length_filter_mem: "distinct xs \<Longrightarrow> length (filter (\<lambda>t. t \<in> B) xs) = card (set xs \<inter> B)"
proof -
  assume d: "distinct xs"
  have "card (set (filter (\<lambda>t. t \<in> B) xs)) = length (filter (\<lambda>t. t \<in> B) xs)"
    by (rule distinct_card) (simp add: d)
  moreover have "set (filter (\<lambda>t. t \<in> B) xs) = set xs \<inter> B" by auto
  ultimately show ?thesis by simp
qed

lemma map_of_Map_set: "map_of (Map_set m k v) = (map_of m)(k \<mapsto> v)"
  by (induction m k v rule: Map_set.induct) auto

lemma keys_Map_set: "fst ` set (Map_set m k v) = insert k (fst ` set m)"
  by (induction m k v rule: Map_set.induct) auto

lemma distinct_Map_set: "distinct (map fst m) \<Longrightarrow> distinct (map fst (Map_set m k v))"
  by (induction m k v rule: Map_set.induct) (auto simp: keys_Map_set)

lemma sum_count_up: "sum_list (map snd (count_up m k)) = Suc (sum_list (map snd m))"
proof -
  have "sum_list (map snd (Map_set m k (Suc (case map_of m k of None \<Rightarrow> 0 | Some c \<Rightarrow> c)))) =
        Suc (sum_list (map snd m))"
    by (induction m) auto
  then show ?thesis by (simp add: count_up_def Map_get_def)
qed

lemma keys_count_up: "fst ` set (count_up m k) = insert k (fst ` set m)"
  by (simp add: count_up_def keys_Map_set)

lemma distinct_count_up: "distinct (map fst m) \<Longrightarrow> distinct (map fst (count_up m k))"
  by (simp add: count_up_def distinct_Map_set)

subsection \<open>Vectorizing an empty token list\<close>

lemma foldl_norm_zeros: "foldl (\<lambda>norm v. norm + v * v) a (replicate n (0::real)) = a"
  by (induction n) simp_all

text \<open>
  Claim C2, as the code has it: for an empty token list, in particular for the tokens of
  the empty text, \<^verbatim>\<open>vectorize\<close> returns one zero for every term of the vocabulary.
  The result has length zero only for the empty vocabulary.
\<close>

theorem vectorize_empty_tokens:
  "tokenize [] = [] \<and>
   vectorize vocabulary idfValues (tokenize []) = replicate (length vocabulary) 0"
proof -
  have t: "tokenize [] = []"
    by (simp add: tokenize_def toLowerCase_def trim_def)
  have "vectorize vocabulary idfValues [] = replicate (length vocabulary) 0"
    by (simp add: vectorize_def Let_def foldl_norm_zeros)
  with t show ?thesis by simp
qed

text \<open>
  Claim C2 as stated fails: with a vocabulary of one term the vector of the empty text
  is not of length zero.
\<close>

theorem vectorize_empty_tokens_counterexample:
  "vectorize [''resume''] [(''resume'', 1)] (tokenize []) \<noteq> []"
  by (simp add: vectorize_def tokenize_def toLowerCase_def trim_def)

subsection \<open>Weight profiles\<close>

text \<open>
  Claim C5: the weights of each of the four profiles sum to 1 within 0.01, and in the two
  profiles with a content signal that is not useful the content weight is 0.
\<close>

theorem weight_profiles_sum:
  "\<bar>w_tfidf (weights_of True True) + w_history (weights_of True True) + w_path (weights_of True True)
     + w_content (weights_of True True) + w_pathMemory (weights_of True True) - 1\<bar> \<le> 0.01 \<and>
   \<bar>w_tfidf (weights_of True False) + w_history (weights_of True False) + w_path (weights_of True False)
     + w_content (weights_of True False) + w_pathMemory (weights_of True False) - 1\<bar> \<le> 0.01 \<and>
   \<bar>w_tfidf (weights_of False True) + w_history (weights_of False True) + w_path (weights_of False True)
     + w_content (weights_of False True) + w_pathMemory (weights_of False True) - 1\<bar> \<le> 0.01 \<and>
   \<bar>w_tfidf (weights_of False False) + w_history (weights_of False False) + w_path (weights_of False False)
     + w_content (weights_of False False) + w_pathMemory (weights_of False False) - 1\<bar> \<le> 0.01 \<and>
   w_tfidf (weights_of False True) = 0 \<and> w_tfidf (weights_of False False) = 0"
  by (simp add: weights_of_def)

subsection \<open>Keyword overlap\<close>

lemma overlap_of_sets:
  "(if length (new_Set xs) = 0 \<or> length (new_Set ys) = 0 then 0
    else real (length (filter (\<lambda>t. t \<in> set (new_Set ys)) (new_Set xs))) /
         real (min (length (new_Set xs)) (length (new_Set ys)))) =
   (if set xs = {} \<or> set ys = {} then 0
    else real (card (set xs \<inter> set ys)) / real (min (card (set xs)) (card (set ys))))"
  by (simp add: length_new_Set length_filter_mem distinct_new_Set set_new_Set)

text \<open>
  Claim C8: the path/name score is the overlap coefficient of the set of filtered tokens
  of the path and the set of filtered tokens of the query text: the size of the
  intersection over the smaller of the two sizes, and 0 when either set is empty. The
  content-preview overlap is the same coefficient for the tokens of the text preview.
\<close>

theorem overlap_coefficient:
  "computePathNameScore tokenizeFiltered filePath context =
     (if set (tokenizeFiltered (replace_separators filePath)) = {} \<or> set (tokenizeFiltered context) = {}
      then 0
      else real (card (set (tokenizeFiltered (replace_separators filePath)) \<inter> set (tokenizeFiltered context))) /
           real (min (card (set (tokenizeFiltered (replace_separators filePath))))
                     (card (set (tokenizeFiltered context))))) \<and>
   computeContentOverlap tokenizeFiltered preview context =
     (if set (tokenizeFiltered preview) = {} \<or> set (tokenizeFiltered context) = {}
      then 0
      else real (card (set (tokenizeFiltered preview) \<inter> set (tokenizeFiltered context))) /
           real (min (card (set (tokenizeFiltered preview))) (card (set (tokenizeFiltered context)))))"
proof -
  have p: "computePathNameScore tokenizeFiltered filePath context =
      (if length (new_Set (tokenizeFiltered (replace_separators filePath))) = 0 \<or>
          length (new_Set (tokenizeFiltered context)) = 0 then 0
       else real (length (filter (\<lambda>t. t \<in> set (new_Set (tokenizeFiltered context)))
                     (new_Set (tokenizeFiltered (replace_separators filePath))))) /
            real (min (length (new_Set (tokenizeFiltered (replace_separators filePath))))
                      (length (new_Set (tokenizeFiltered context)))))"
    by (simp add: computePathNameScore_def Let_def)
  have c: "computeContentOverlap tokenizeFiltered preview context =
      (if length (new_Set (tokenizeFiltered context)) = 0 \<or>
          length (new_Set (tokenizeFiltered preview)) = 0 then 0
       else real (length (filter (\<lambda>t. t \<in> set (new_Set (tokenizeFiltered preview)))
                     (new_Set (tokenizeFiltered context)))) /
            real (min (length (new_Set (tokenizeFiltered context)))
                      (length (new_Set (tokenizeFiltered preview)))))"
    by (auto simp add: computeContentOverlap_def Let_def min.commute)
  show ?thesis
    unfolding p c overlap_of_sets by (auto simp: Int_commute min.commute)
qed



lemma example_tokens_overlap:
  "tokenize (replace_separators ''cv/resume.pdf'') = [''cv'', ''resume'', ''pdf'']"
  "tokenize ''upload resume'' = [''upload'', ''resume'']"
  "tokenize ''my resume and my cv'' = [''my'', ''resume'', ''and'', ''my'', ''cv'']"
  by (simp_all add: tokenize_def toLowerCase_def toLowerCase_char_def trim_def is_whitespace_def
      is_alnum_def is_cjk_def replace_separators_def)

text \<open>
  Claim C8 with the unfiltered tokenizer in the place of \<^verbatim>\<open>tokenizeFiltered\<close>: one
  common term, and two terms of the query text.
\<close>

theorem overlap_coefficient_witness:
  "computePathNameScore tokenize ''cv/resume.pdf'' ''upload resume'' = 1 / 2 \<and>
   computeContentOverlap tokenize ''my resume and my cv'' ''upload resume'' = 1 / 2"
proof -
  have "set [''cv'', ''resume'', ''pdf''] \<inter> set [''upload'', ''resume''] = {''resume''}"
    and "set [''my'', ''resume'', ''and'', ''my'', ''cv''] \<inter> set [''upload'', ''resume''] = {''resume''}"
    by auto
  moreover have "card (set [''cv'', ''resume'', ''pdf'']) = 3"
    and "card (set [''upload'', ''resume'']) = 2"
    and "card (set [''my'', ''resume'', ''and'', ''my'', ''cv'']) = 4"
    by (simp_all only: card_set) simp_all
  ultimately show ?thesis
    using overlap_coefficient [of tokenize "''cv/resume.pdf''" "''upload resume''" "''my resume and my cv''"]
    by (simp only: example_tokens_overlap) simp
qed

subsection \<open>Folder frequency\<close>

lemma folderFreq_snoc:
  "folderFreq_of (history @ [h]) = count_up (folderFreq_of history) (folder_of (fileId h))"
  by (simp add: folderFreq_of_def)

lemma folderFreq_props:
  "distinct (map fst (folderFreq_of history)) \<and>
   fst ` set (folderFreq_of history) = (\<lambda>h. folder_of (fileId h)) ` set history \<and>
   sum_list (map snd (folderFreq_of history)) = length history"
proof (induction history rule: rev_induct)
  case Nil
  show ?case by (simp add: folderFreq_of_def)
next
  case (snoc h history)
  then show ?case
    by (simp add: folderFreq_snoc distinct_count_up keys_count_up sum_count_up)
qed

lemma foldl_plus_sum_list: "foldl (\<lambda>a b. a + b) (a::nat) xs = a + sum_list xs"
  by (induction xs arbitrary: a) simp_all

lemma totalFolderUploads_length:
  "totalFolderUploads_of (folderFreq_of history) = length history"
  by (simp add: totalFolderUploads_of_def foldl_plus_sum_list folderFreq_props)

subsection \<open>Rounding to a double\<close>

lemma round_half_even_error: "\<bar>of_int (round_half_even y) - y\<bar> \<le> 1 / 2"
proof -
  have "of_int \<lfloor>y\<rfloor> \<le> y" "y < of_int \<lfloor>y\<rfloor> + 1" by linarith+
  then show ?thesis
    by (auto simp: round_half_even_def Let_def)
qed

lemma two_powr_neg: "(2::real) powr (- real n) = 1 / 2 ^ n"
  by (simp add: powr_minus powr_realpow inverse_eq_divide)

lemma halve_bound: "(u::real) \<le> x / 2 ^ 52 \<Longrightarrow> u / 2 \<le> x / 2 ^ 53"
proof -
  assume "u \<le> x / 2 ^ 52"
  then have "u / 2 \<le> x / 2 ^ 52 / 2" by (simp only: divide_right_mono zero_le_numeral)
  also have "x / 2 ^ 52 / 2 = x / (2 ^ 52 * 2)" by (simp only: divide_divide_eq_left)
  also have "(2::real) ^ 52 * 2 = 2 ^ Suc 52" by (simp only: power_Suc mult.commute)
  also have "Suc 52 = 53" by simp
  finally show ?thesis .
qed

lemma floor_log2_bounds:
  assumes "0 < x"
  shows "2 powr of_int \<lfloor>log 2 x\<rfloor> \<le> x"
proof -
  have "of_int \<lfloor>log 2 x\<rfloor> \<le> log 2 x" by simp
  then have "2 powr of_int \<lfloor>log 2 x\<rfloor> \<le> 2 powr log 2 x" by (simp only: powr_le_cancel_iff) 
  then show ?thesis using assms by simp
qed

lemma floor_log2_eq:
  assumes "0 < x" and "2 powr of_int e \<le> x" and "x < 2 powr (of_int e + 1)"
  shows "\<lfloor>log 2 x\<rfloor> = e"
proof -
  have "of_int e \<le> log 2 x" using assms by (simp add: le_log_iff)
  moreover have "log 2 x < of_int e + 1" using assms by (simp add: log_less_iff)
  ultimately show ?thesis by (simp add: floor_eq_iff)
qed

lemma round_double_error:
  assumes "0 \<le> x"
  shows "\<bar>round_double x - x\<bar> \<le> x / 2 ^ 53"
proof (cases "x = 0")
  case True
  then show ?thesis by (simp add: round_double_def)
next
  case False
  with assms have pos: "0 < x" by simp
  define e where "e = \<lfloor>log 2 x\<rfloor>"
  define ulp :: real where "ulp = 2 powr (of_int e - 52)"
  have ulp_pos: "0 < ulp" by (simp add: ulp_def)
  have rd: "round_double x = of_int (round_half_even (x / ulp)) * ulp"
    using pos by (simp add: round_double_def Let_def e_def ulp_def)
  have "\<bar>of_int (round_half_even (x / ulp)) - x / ulp\<bar> \<le> 1 / 2"
    by (rule round_half_even_error)
  then have "\<bar>of_int (round_half_even (x / ulp)) - x / ulp\<bar> * ulp \<le> 1 / 2 * ulp"
    using ulp_pos by (simp only: mult_le_cancel_right_pos)
  moreover have "\<bar>of_int (round_half_even (x / ulp)) - x / ulp\<bar> * ulp =
        \<bar>of_int (round_half_even (x / ulp)) * ulp - x\<bar>"
  proof -
    have "\<bar>of_int (round_half_even (x / ulp)) - x / ulp\<bar> * ulp =
          \<bar>(of_int (round_half_even (x / ulp)) - x / ulp) * ulp\<bar>"
      using ulp_pos by (simp add: abs_mult)
    also have "(of_int (round_half_even (x / ulp)) - x / ulp) * ulp =
          of_int (round_half_even (x / ulp)) * ulp - x"
      using ulp_pos by (simp add: algebra_simps)
    finally show ?thesis .
  qed
  ultimately have err: "\<bar>round_double x - x\<bar> \<le> ulp / 2" by (simp add: rd)
  have "ulp = 2 powr of_int e * 2 powr (- real 52)"
    unfolding ulp_def by (simp only: powr_add [symmetric]) simp
  also have "(2::real) powr (- real 52) = 1 / 2 ^ 52" by (rule two_powr_neg)
  finally have "ulp = 2 powr of_int e / 2 ^ 52" by simp
  moreover have "2 powr of_int e \<le> x" unfolding e_def using pos by (rule floor_log2_bounds)
  ultimately have "ulp \<le> x / 2 ^ 52" by (simp only: divide_right_mono zero_le_power zero_le_numeral)
  then have "ulp / 2 \<le> x / 2 ^ 53" by (rule halve_bound)
  with err show ?thesis by linarith
qed

lemma round_double_eval:
  assumes "0 < x" and "2 powr of_int e \<le> x" and "x < 2 powr (of_int e + 1)"
  shows "round_double x = of_int (round_half_even (x / 2 powr (of_int e - 52))) * 2 powr (of_int e - 52)"
proof -
  have "\<lfloor>log 2 x\<rfloor> = e" using assms by (rule floor_log2_eq)
  then show ?thesis using assms(1) by (simp add: round_double_def Let_def)
qed

lemma round_double_sixth: "round_double (1 / 6) = 6004799503160661 / 2 ^ 55"
proof -
  have p: "(2::real) powr (of_int (- 3) - 52) = 1 / 2 ^ 55"
    using two_powr_neg [of 55] by simp
  have q: "(2::real) powr of_int (- 3) = 1 / 2 ^ 3" "(2::real) powr (of_int (- 3) + 1) = 1 / 2 ^ 2"
    using two_powr_neg [of 3] two_powr_neg [of 2] by simp_all
  have "round_double (1 / 6) =
        of_int (round_half_even ((1 / 6) / 2 powr (of_int (- 3) - 52))) * 2 powr (of_int (- 3) - 52)"
    by (rule round_double_eval) (simp_all only: q, simp_all)
  also have "\<dots> = of_int (round_half_even ((1 / 6) / (1 / 2 ^ 55))) * (1 / 2 ^ 55)"
    by (simp only: p)
  also have "round_half_even ((1 / 6) / (1 / 2 ^ 55)) = 6004799503160661"
    by (simp add: round_half_even_def Let_def)
  finally show ?thesis by simp
qed

lemma round_double_three_quarters: "round_double (3 / 4) = 3 / 4"
proof -
  have p: "(2::real) powr (of_int (- 1) - 52) = 1 / 2 ^ 53"
    using two_powr_neg [of 53] by simp
  have q: "(2::real) powr of_int (- 1) = 1 / 2 ^ 1" "(2::real) powr (of_int (- 1) + 1) = 1"
    using two_powr_neg [of 1] by simp_all
  have "round_double (3 / 4) =
        of_int (round_half_even ((3 / 4) / 2 powr (of_int (- 1) - 52))) * 2 powr (of_int (- 1) - 52)"
    by (rule round_double_eval) (simp_all only: q, simp_all)
  also have "\<dots> = of_int (round_half_even ((3 / 4) / (1 / 2 ^ 53))) * (1 / 2 ^ 53)"
    by (simp only: p)
  also have "round_half_even ((3 / 4) / (1 / 2 ^ 53)) = 6755399441055744"
    by (simp add: round_half_even_def Let_def)
  finally show ?thesis by simp
qed

lemma round_double_quarter: "round_double (1 / 4) = 1 / 4"
proof -
  have p: "(2::real) powr (of_int (- 2) - 52) = 1 / 2 ^ 54"
    using two_powr_neg [of 54] by simp
  have q: "(2::real) powr of_int (- 2) = 1 / 2 ^ 2" "(2::real) powr (of_int (- 2) + 1) = 1 / 2 ^ 1"
    using two_powr_neg [of 2] two_powr_neg [of 1] by simp_all
  have "round_double (1 / 4) =
        of_int (round_half_even ((1 / 4) / 2 powr (of_int (- 2) - 52))) * 2 powr (of_int (- 2) - 52)"
    by (rule round_double_eval) (simp_all only: q, simp_all)
  also have "\<dots> = of_int (round_half_even ((1 / 4) / (1 / 2 ^ 54))) * (1 / 2 ^ 54)"
    by (simp only: p)
  also have "round_half_even ((1 / 4) / (1 / 2 ^ 54)) = 4503599627370496"
    by (simp add: round_half_even_def Let_def)
  finally show ?thesis by simp
qed

subsection \<open>Folder boosts\<close>

lemma sum_list_abs_bound:
  "(\<forall>x \<in> set xs. \<bar>f x - g x\<bar> \<le> (h x :: real)) \<Longrightarrow>
   \<bar>sum_list (map f xs) - sum_list (map g xs)\<bar> \<le> sum_list (map h xs)"
proof (induction xs)
  case Nil
  show ?case by simp
next
  case (Cons x xs)
  then have "\<bar>f x - g x\<bar> \<le> h x"
    and "\<bar>sum_list (map f xs) - sum_list (map g xs)\<bar> \<le> sum_list (map h xs)"
    by simp_all
  then show ?case by simp
qed

lemma sum_list_scaled:
  "sum_list (map (\<lambda>p. real (snd p) / c) (xs :: (string \<times> nat) list)) =
   real (sum_list (map snd xs)) / c"
  by (induction xs) (simp_all add: add_divide_distrib)

lemma folderBoost_of_key:
  assumes "distinct (map fst m)" and "0 < n" and "p \<in> set m"
  shows "folderBoost_of m n (fst p) = round_double (real (snd p) / real n)"
proof -
  from assms(1,3) have "map_of m (fst p) = Some (snd p)" by simp
  with assms(2) show ?thesis by (simp add: folderBoost_of_def Map_get_def)
qed

lemma folderBoost_of_other:
  assumes "f \<notin> fst ` set m"
  shows "folderBoost_of m n f = 0"
proof -
  from assms have "map_of m f = None" by (simp add: map_of_eq_None_iff)
  then show ?thesis by (simp add: folderBoost_of_def Map_get_def round_double_def)
qed

lemma sum_list_boosts:
  assumes d: "distinct (map fst m)" and n: "0 < n" and t: "sum_list (map snd m) = n"
  shows "\<bar>sum_list (map (\<lambda>f. folderBoost_of m n f) (map fst m)) - 1\<bar> \<le> 1 / 2 ^ 53"
proof -
  let ?f = "\<lambda>p. folderBoost_of m n (fst p)"
  let ?g = "\<lambda>p. real (snd p) / real n"
  let ?h = "\<lambda>p. real (snd p) / (real n * 2 ^ 53)"
  have "\<forall>p \<in> set m. \<bar>?f p - ?g p\<bar> \<le> ?h p"
  proof
    fix p assume p: "p \<in> set m"
    have "\<bar>round_double (?g p) - ?g p\<bar> \<le> ?g p / 2 ^ 53"
      by (rule round_double_error) simp
    then show "\<bar>?f p - ?g p\<bar> \<le> ?h p"
      using folderBoost_of_key [OF d n p] by (simp add: divide_divide_eq_left)
  qed
  then have "\<bar>sum_list (map ?f m) - sum_list (map ?g m)\<bar> \<le> sum_list (map ?h m)"
    by (rule sum_list_abs_bound)
  moreover have "sum_list (map ?g m) = 1"
    using n t by (simp only: sum_list_scaled) simp
  moreover have "sum_list (map ?h m) = 1 / 2 ^ 53"
  proof -
    have "sum_list (map ?h m) = real n / (real n * 2 ^ 53)"
      using t by (simp only: sum_list_scaled)
    then show ?thesis using n by simp
  qed
  ultimately have "\<bar>sum_list (map ?f m) - 1\<bar> \<le> 1 / 2 ^ 53" by simp
  then show ?thesis by (simp add: comp_def)
qed

lemma boosts_sum_list:
  assumes "history \<noteq> []"
  shows "\<bar>(\<Sum>f \<in> fst ` set (folderFreq_of history).
            folderBoost_of (folderFreq_of history) (totalFolderUploads_of (folderFreq_of history)) f) - 1\<bar>
         \<le> 1 / 2 ^ 53"
proof -
  let ?m = "folderFreq_of history"
  let ?n = "totalFolderUploads_of ?m"
  have n: "?n = length history" by (rule totalFolderUploads_length)
  have d: "distinct (map fst ?m)" using folderFreq_props [of history] by simp
  have t: "sum_list (map snd ?m) = ?n" using folderFreq_props [of history] n by simp
  have pos: "0 < ?n" using assms n by simp
  have "(\<Sum>f \<in> set (map fst ?m). folderBoost_of ?m ?n f) =
        sum_list (map (\<lambda>f. folderBoost_of ?m ?n f) (map fst ?m))"
    using d by (simp only: sum_list_distinct_conv_sum_set)
  moreover have "\<bar>sum_list (map (\<lambda>f. folderBoost_of ?m ?n f) (map fst ?m)) - 1\<bar> \<le> 1 / 2 ^ 53"
    using d pos t by (rule sum_list_boosts)
  ultimately show ?thesis by simp
qed

lemma match_history_host:
  "pageHost \<noteq> [] \<Longrightarrow>
   match_history historyStore pageHost = take 50 (filter (\<lambda>h. websiteHost h = pageHost) historyStore)"
  by (simp add: match_history_def getHistoryByHost_def)

text \<open>
  Claim C7, as the code has it: for a host with at least one upload in the history store,
  the folder boosts of the distinct folders of the host's uploads sum to 1 up to the
  rounding of the quotients: the sum differs from 1 by at most \<open>1 / 2 ^ 53\<close>. Without a
  host, or without an upload on the host, every folder boost is 0.
\<close>

theorem folder_boosts_sum:
  "(pageHost \<noteq> [] \<and> (\<exists>h \<in> set historyStore. websiteHost h = pageHost) \<longrightarrow>
      \<bar>(\<Sum>f \<in> (\<lambda>h. folder_of (fileId h)) ` {h \<in> set historyStore. websiteHost h = pageHost}.
           folderBoost_of (folderFreq_of (match_history historyStore pageHost))
             (totalFolderUploads_of (folderFreq_of (match_history historyStore pageHost))) f) - 1\<bar>
      \<le> 1 / 2 ^ 53) \<and>
   (pageHost = [] \<or> (\<forall>h \<in> set historyStore. websiteHost h \<noteq> pageHost) \<longrightarrow>
      folderBoost_of (folderFreq_of (match_history historyStore pageHost))
        (totalFolderUploads_of (folderFreq_of (match_history historyStore pageHost))) f = 0)"
proof (intro conjI impI)
  let ?E = "filter (\<lambda>h. websiteHost h = pageHost) historyStore"
  let ?H = "match_history historyStore pageHost"
  let ?m = "folderFreq_of ?H"
  let ?n = "totalFolderUploads_of ?m"
  let ?F = "(\<lambda>h. folder_of (fileId h)) ` {h \<in> set historyStore. websiteHost h = pageHost}"
  assume a: "pageHost \<noteq> [] \<and> (\<exists>h \<in> set historyStore. websiteHost h = pageHost)"
  then have H: "?H = take 50 ?E" by (simp add: match_history_host)
  from a have "?E \<noteq> []" by (auto simp: filter_empty_conv)
  with H have ne: "?H \<noteq> []" by simp
  have keys: "fst ` set ?m = (\<lambda>h. folder_of (fileId h)) ` set ?H"
    using folderFreq_props [of ?H] by simp
  have "set ?H \<subseteq> set ?E" unfolding H by (rule set_take_subset)
  then have sub: "fst ` set ?m \<subseteq> ?F" unfolding keys by auto
  have "(\<Sum>f \<in> ?F. folderBoost_of ?m ?n f) = (\<Sum>f \<in> fst ` set ?m. folderBoost_of ?m ?n f)"
  proof (rule sum.mono_neutral_right)
    show "finite ?F" by simp
    show "fst ` set ?m \<subseteq> ?F" by (rule sub)
    show "\<forall>f \<in> ?F - fst ` set ?m. folderBoost_of ?m ?n f = 0"
      by (simp add: folderBoost_of_other)
  qed
  moreover have "\<bar>(\<Sum>f \<in> fst ` set ?m. folderBoost_of ?m ?n f) - 1\<bar> \<le> 1 / 2 ^ 53"
    using ne by (rule boosts_sum_list)
  ultimately show "\<bar>(\<Sum>f \<in> ?F. folderBoost_of ?m ?n f) - 1\<bar> \<le> 1 / 2 ^ 53" by simp
next
  assume "pageHost = [] \<or> (\<forall>h \<in> set historyStore. websiteHost h \<noteq> pageHost)"
  then have "match_history historyStore pageHost = []"
    by (auto simp: match_history_def getHistoryByHost_def filter_empty_conv)
  then show "folderBoost_of (folderFreq_of (match_history historyStore pageHost))
        (totalFolderUploads_of (folderFreq_of (match_history historyStore pageHost))) f = 0"
    by (simp add: folderBoost_of_def totalFolderUploads_of_def folderFreq_of_def)
qed

lemma example_six_history: "match_history example_six ''a.edu'' = example_six"
  by (simp add: match_history_def getHistoryByHost_def example_six_def example_entry_def)

lemma example_six_folderFreq:
  "folderFreq_of example_six =
     [(''f1'', 1), (''f2'', 1), (''f3'', 1), (''f4'', 1), (''f5'', 1), (''f6'', 1)]"
  by (simp add: example_six_def example_entry_def folderFreq_of_def folder_of_def count_up_def Map_get_def)

lemma example_six_folders:
  "(\<lambda>h. folder_of (fileId h)) ` {h \<in> set example_six. websiteHost h = ''a.edu''} =
     {''f1'', ''f2'', ''f3'', ''f4'', ''f5'', ''f6''}"
proof -
  have "{h \<in> set example_six. websiteHost h = ''a.edu''} = set example_six"
    by (auto simp: example_six_def example_entry_def)
  then show ?thesis
    by (simp add: example_six_def example_entry_def folder_of_def)
qed

text \<open>
  Claim C7 as stated fails: with six uploads from six folders each boost is the double
  nearest to \<open>1 / 6\<close>, which is below \<open>1 / 6\<close>, and the six boosts do not sum to 1.
\<close>

theorem folder_boosts_sum_counterexample:
  "(\<Sum>f \<in> (\<lambda>h. folder_of (fileId h)) ` {h \<in> set example_six. websiteHost h = ''a.edu''}.
      folderBoost_of (folderFreq_of (match_history example_six ''a.edu''))
        (totalFolderUploads_of (folderFreq_of (match_history example_six ''a.edu''))) f) \<noteq> 1"
proof -
  let ?S = "{''f1'', ''f2'', ''f3'', ''f4'', ''f5'', ''f6''}"
  let ?m = "folderFreq_of example_six"
  have tot: "totalFolderUploads_of ?m = 6"
    by (simp add: example_six_folderFreq totalFolderUploads_of_def)
  have b: "folderBoost_of ?m 6 f = 6004799503160661 / 2 ^ 55" if "f \<in> ?S" for f
    using that by (auto simp: example_six_folderFreq folderBoost_of_def Map_get_def round_double_sixth)
  have "(\<Sum>f \<in> ?S. folderBoost_of ?m 6 f) = (\<Sum>f \<in> ?S. 6004799503160661 / 2 ^ 55)"
    by (rule sum.cong [OF refl]) (rule b)
  also have "\<dots> = real (card ?S) * (6004799503160661 / 2 ^ 55)"
    by (simp only: sum_constant)
  also have "card ?S = 6" by simp
  finally have "(\<Sum>f \<in> ?S. folderBoost_of ?m 6 f) = 6 * (6004799503160661 / 2 ^ 55)"
    by simp
  then have ne: "(\<Sum>f \<in> ?S. folderBoost_of ?m 6 f) \<noteq> 1" by simp
  show ?thesis
    unfolding example_six_history example_six_folders tot by (rule ne)
qed

lemma example_history_fetch: "match_history example_history ''a.edu'' = example_history"
  by (simp add: match_history_def getHistoryByHost_def example_history_def example_entry_def)

lemma example_folderFreq: "folderFreq_of example_history = [(''23S/OS'', 3), (''23S/CS'', 1)]"
  by (simp add: example_history_def example_entry_def folderFreq_of_def folder_of_def count_up_def Map_get_def)

text \<open>
  Claim C7 as the code has it, on the example history (three uploads from one folder, one
  from another), and for a host without uploads.
\<close>

theorem folder_boosts_sum_witness:
  "example_entry ''23S/OS/HW1.pdf'' ''a.edu'' 0 \<in> set example_history \<and>
   websiteHost (example_entry ''23S/OS/HW1.pdf'' ''a.edu'' 0) = ''a.edu'' \<and>
   folderBoost_of (folderFreq_of (match_history example_history ''a.edu''))
     (totalFolderUploads_of (folderFreq_of (match_history example_history ''a.edu''))) ''23S/OS'' = 3 / 4 \<and>
   folderBoost_of (folderFreq_of (match_history example_history ''a.edu''))
     (totalFolderUploads_of (folderFreq_of (match_history example_history ''a.edu''))) ''23S/CS'' = 1 / 4 \<and>
   \<bar>(\<Sum>f \<in> (\<lambda>h. folder_of (fileId h)) ` {h \<in> set example_history. websiteHost h = ''a.edu''}.
        folderBoost_of (folderFreq_of (match_history example_history ''a.edu''))
          (totalFolderUploads_of (folderFreq_of (match_history example_history ''a.edu''))) f) - 1\<bar>
     \<le> 1 / 2 ^ 53 \<and>
   folderBoost_of (folderFreq_of (match_history example_history ''b.edu''))
     (totalFolderUploads_of (folderFreq_of (match_history example_history ''b.edu''))) ''23S/OS'' = 0"
proof -
  have m: "example_entry ''23S/OS/HW1.pdf'' ''a.edu'' 0 \<in> set example_history"
    by (simp add: example_history_def)
  have w: "websiteHost (example_entry ''23S/OS/HW1.pdf'' ''a.edu'' 0) = ''a.edu''"
    by (simp add: example_entry_def)
  have n: "\<forall>h \<in> set example_history. websiteHost h \<noteq> ''b.edu''"
    by (simp add: example_history_def example_entry_def)
  have tot: "totalFolderUploads_of [(''23S/OS'', 3), (''23S/CS'', 1)] = 4"
    by (simp add: totalFolderUploads_of_def)
  have b1: "folderBoost_of (folderFreq_of (match_history example_history ''a.edu''))
     (totalFolderUploads_of (folderFreq_of (match_history example_history ''a.edu''))) ''23S/OS'' = 3 / 4"
    unfolding example_history_fetch example_folderFreq tot
    by (simp add: folderBoost_of_def Map_get_def round_double_three_quarters)
  have b2: "folderBoost_of (folderFreq_of (match_history example_history ''a.edu''))
     (totalFolderUploads_of (folderFreq_of (match_history example_history ''a.edu''))) ''23S/CS'' = 1 / 4"
    unfolding example_history_fetch example_folderFreq tot
    by (simp add: folderBoost_of_def Map_get_def round_double_quarter)
  from m w have e: "\<exists>h \<in> set example_history. websiteHost h = ''a.edu''" by blast
  from folder_boosts_sum [of "''a.edu''" example_history] e
  have s: "\<bar>(\<Sum>f \<in> (\<lambda>h. folder_of (fileId h)) ` {h \<in> set example_history. websiteHost h = ''a.edu''}.
        folderBoost_of (folderFreq_of (match_history example_history ''a.edu''))
          (totalFolderUploads_of (folderFreq_of (match_history example_history ''a.edu''))) f) - 1\<bar>
     \<le> 1 / 2 ^ 53"
    by simp
  from folder_boosts_sum [of "''b.edu''" example_history "''23S/OS''"] n
  have z: "folderBoost_of (folderFreq_of (match_history example_history ''b.edu''))
     (totalFolderUploads_of (folderFreq_of (match_history example_history ''b.edu''))) ''23S/OS'' = 0"
    by blast
  from m w b1 b2 s z show ?thesis by blast
qed


subsection \<open>History boost\<close>

lemma historyMap_snoc: "historyMap_of (history @ [h]) = historyMap_add (historyMap_of history) h"
  by (simp add: historyMap_of_def)

lemma map_of_historyMap_add:
  "map_of (historyMap_add m h) =
     (map_of m)(fileId h \<mapsto>
        (case map_of m (fileId h) of None \<Rightarrow> (1, timestamp h)
         | Some (count, lastTs) \<Rightarrow> (count + 1, max lastTs (timestamp h))))"
  by (simp add: historyMap_add_def Map_get_def map_of_Map_set split: option.splits prod.splits)

lemma Map_get_historyMap:
  "Map_get (historyMap_of history) k =
     (if k \<in> fileId ` set history
      then Some (length (filter (\<lambda>h. fileId h = k) history),
                 Max (timestamp ` {h \<in> set history. fileId h = k}))
      else None)"
proof (induction history rule: rev_induct)
  case Nil
  show ?case by (simp add: historyMap_of_def Map_get_def)
next
  case (snoc h history)
  let ?S = "{x \<in> set history. fileId x = k}"
  show ?case
  proof (cases "fileId h = k")
    case False
    then have "{x \<in> set (history @ [h]). fileId x = k} = ?S" by auto
    with False snoc show ?thesis
      by (auto simp: Map_get_def historyMap_snoc map_of_historyMap_add)
  next
    case True
    have S: "{x \<in> set (history @ [h]). fileId x = k} = insert h ?S" using True by auto
    have fin: "finite (timestamp ` ?S)" by simp
    show ?thesis
    proof (cases "k \<in> fileId ` set history")
      case False
      then have "?S = {}" by auto
      with False True snoc S show ?thesis
        by (simp add: Map_get_def historyMap_snoc map_of_historyMap_add)
    next
      case k: True
      then have ne: "timestamp ` ?S \<noteq> {}" by auto
      have "Max (timestamp ` insert h ?S) = max (timestamp h) (Max (timestamp ` ?S))"
        using fin ne by simp
      with k True snoc S show ?thesis
        by (simp add: Map_get_def historyMap_snoc map_of_historyMap_add max.commute)
    qed
  qed
qed

lemma ONE_DAY_pos: "0 < ONE_DAY"
  by (simp add: ONE_DAY_def)

lemma history_boost_list:
  "(rid \<notin> fileId ` set history \<longrightarrow>
      historyBoost_of (Map_get (historyMap_of history) rid) now = 0) \<and>
   (rid \<in> fileId ` set history \<longrightarrow>
      historyBoost_of (Map_get (historyMap_of history) rid) now =
        max 0.1 (1.0 - ((now - Max (timestamp ` {h \<in> set history. fileId h = rid})) / ONE_DAY) / 90) \<and>
      0.1 \<le> historyBoost_of (Map_get (historyMap_of history) rid) now \<and>
      ((\<forall>h \<in> set history. timestamp h \<le> now) \<longrightarrow>
         historyBoost_of (Map_get (historyMap_of history) rid) now \<le> 1.0) \<and>
      (now \<le> now' \<longrightarrow>
         historyBoost_of (Map_get (historyMap_of history) rid) now' \<le>
         historyBoost_of (Map_get (historyMap_of history) rid) now))"
proof (intro conjI impI)
  assume "rid \<notin> fileId ` set history"
  then show "historyBoost_of (Map_get (historyMap_of history) rid) now = 0"
    by (simp add: Map_get_historyMap historyBoost_of_def)
next
  assume m: "rid \<in> fileId ` set history"
  let ?last = "Max (timestamp ` {h \<in> set history. fileId h = rid})"
  have b: "historyBoost_of (Map_get (historyMap_of history) rid) t =
           max 0.1 (1.0 - ((t - ?last) / ONE_DAY) / 90)" for t
    using m by (simp add: Map_get_historyMap historyBoost_of_def Let_def)
  show "historyBoost_of (Map_get (historyMap_of history) rid) now =
        max 0.1 (1.0 - ((now - ?last) / ONE_DAY) / 90)"
    by (rule b)
  show "0.1 \<le> historyBoost_of (Map_get (historyMap_of history) rid) now"
    unfolding b by simp
  {
    assume le: "\<forall>h \<in> set history. timestamp h \<le> now"
    have "?last \<in> timestamp ` {h \<in> set history. fileId h = rid}"
      using m by (intro Max_in) auto
    with le have "?last \<le> now" by auto
    then have "0 \<le> ((now - ?last) / ONE_DAY) / 90"
      using ONE_DAY_pos by simp
    then show "historyBoost_of (Map_get (historyMap_of history) rid) now \<le> 1.0"
      unfolding b by simp
  }
  {
    assume "now \<le> now'"
    then have "(now - ?last) / ONE_DAY \<le> (now' - ?last) / ONE_DAY"
      using ONE_DAY_pos by (simp add: divide_right_mono)
    then show "historyBoost_of (Map_get (historyMap_of history) rid) now' \<le>
               historyBoost_of (Map_get (historyMap_of history) rid) now"
      unfolding b by (simp add: max.coboundedI2)
  }
qed

lemma example_historyMap:
  "historyMap_of example_history =
     [(''23S/OS/HW1.pdf'', 2, 30 * ONE_DAY), (''23S/OS/HW2.pdf'', 1, 45 * ONE_DAY),
      (''23S/CS/lab1.pdf'', 1, 60 * ONE_DAY)]"
  by (simp add: example_history_def example_entry_def historyMap_of_def historyMap_add_def
      Map_get_def ONE_DAY_def)

text \<open>
  Claim C6, as the code has it: for a host with at most 50 uploads in the history store,
  the history boost of a document is 0 when the host's history has no entry for it.
  Otherwise it is \<open>max 0.1 (1 - daysAgo / 90)\<close>, with \<open>daysAgo\<close> the time since the
  latest entry of the host for the document, in days; it is at least 0.1, at most 1 when
  no entry of the host is later than \<open>now\<close>, and it does not grow when \<open>now\<close> grows.
\<close>

theorem history_boost:
  "pageHost \<noteq> [] \<and> length (filter (\<lambda>h. websiteHost h = pageHost) historyStore) \<le> 50 \<longrightarrow>
   (rid \<notin> fileId ` {h \<in> set historyStore. websiteHost h = pageHost} \<longrightarrow>
      historyBoost_of (Map_get (historyMap_of (match_history historyStore pageHost)) rid) now = 0) \<and>
   (rid \<in> fileId ` {h \<in> set historyStore. websiteHost h = pageHost} \<longrightarrow>
      historyBoost_of (Map_get (historyMap_of (match_history historyStore pageHost)) rid) now =
        max 0.1 (1.0 - ((now - Max (timestamp ` {h \<in> set historyStore. websiteHost h = pageHost \<and> fileId h = rid}))
                        / ONE_DAY) / 90) \<and>
      0.1 \<le> historyBoost_of (Map_get (historyMap_of (match_history historyStore pageHost)) rid) now \<and>
      ((\<forall>h \<in> set historyStore. websiteHost h = pageHost \<longrightarrow> timestamp h \<le> now) \<longrightarrow>
         historyBoost_of (Map_get (historyMap_of (match_history historyStore pageHost)) rid) now \<le> 1.0) \<and>
      (now \<le> now' \<longrightarrow>
         historyBoost_of (Map_get (historyMap_of (match_history historyStore pageHost)) rid) now' \<le>
         historyBoost_of (Map_get (historyMap_of (match_history historyStore pageHost)) rid) now))"
proof (intro impI)
  let ?E = "filter (\<lambda>h. websiteHost h = pageHost) historyStore"
  assume a: "pageHost \<noteq> [] \<and> length ?E \<le> 50"
  then have H: "match_history historyStore pageHost = ?E"
    by (simp add: match_history_host)
  have S: "set ?E = {h \<in> set historyStore. websiteHost h = pageHost}" by auto
  have T: "{h \<in> {h \<in> set historyStore. websiteHost h = pageHost}. fileId h = rid} =
           {h \<in> set historyStore. websiteHost h = pageHost \<and> fileId h = rid}"
    by auto
  have B: "(\<forall>h \<in> {h \<in> set historyStore. websiteHost h = pageHost}. timestamp h \<le> now) =
           (\<forall>h \<in> set historyStore. websiteHost h = pageHost \<longrightarrow> timestamp h \<le> now)"
    by auto
  show "(rid \<notin> fileId ` {h \<in> set historyStore. websiteHost h = pageHost} \<longrightarrow>
      historyBoost_of (Map_get (historyMap_of (match_history historyStore pageHost)) rid) now = 0) \<and>
   (rid \<in> fileId ` {h \<in> set historyStore. websiteHost h = pageHost} \<longrightarrow>
      historyBoost_of (Map_get (historyMap_of (match_history historyStore pageHost)) rid) now =
        max 0.1 (1.0 - ((now - Max (timestamp ` {h \<in> set historyStore. websiteHost h = pageHost \<and> fileId h = rid}))
                        / ONE_DAY) / 90) \<and>
      0.1 \<le> historyBoost_of (Map_get (historyMap_of (match_history historyStore pageHost)) rid) now \<and>
      ((\<forall>h \<in> set historyStore. websiteHost h = pageHost \<longrightarrow> timestamp h \<le> now) \<longrightarrow>
         historyBoost_of (Map_get (historyMap_of (match_history historyStore pageHost)) rid) now \<le> 1.0) \<and>
      (now \<le> now' \<longrightarrow>
         historyBoost_of (Map_get (historyMap_of (match_history historyStore pageHost)) rid) now' \<le>
         historyBoost_of (Map_get (historyMap_of (match_history historyStore pageHost)) rid) now))"
    using history_boost_list [of rid ?E now now'] unfolding H S T B .
qed

lemma example_store51_fetch:
  "match_history example_store51 ''a.edu'' =
     map (\<lambda>i. example_entry ''a.pdf'' ''a.edu'' (real i)) [0..<50]"
proof -
  have "filter (\<lambda>h. websiteHost h = ''a.edu'') example_store51 = example_store51"
    by (simp add: example_store51_def example_entry_def filter_id_conv)
  then show ?thesis
    by (simp add: match_history_def getHistoryByHost_def) (simp add: example_store51_def)
qed

text \<open>
  Claim C6 as stated fails: after fifty uploads of one file to a host, the upload of
  another file to the host is not among the entries that \<^verbatim>\<open>handleMatch\<close> fetches, and
  the history boost of that file is 0.
\<close>

theorem history_boost_counterexample:
  "example_entry ''b.pdf'' ''a.edu'' 50 \<in> set example_store51 \<and>
   websiteHost (example_entry ''b.pdf'' ''a.edu'' 50) = ''a.edu'' \<and>
   fileId (example_entry ''b.pdf'' ''a.edu'' 50) = ''b.pdf'' \<and>
   historyBoost_of (Map_get (historyMap_of (match_history example_store51 ''a.edu'')) ''b.pdf'') 100 = 0"
proof -
  have "''b.pdf'' \<notin> fileId ` set (map (\<lambda>i. example_entry ''a.pdf'' ''a.edu'' (real i)) [0..<50])"
    by (auto simp: example_entry_def)
  then have "Map_get (historyMap_of (match_history example_store51 ''a.edu'')) ''b.pdf'' = None"
    unfolding example_store51_fetch by (simp only: Map_get_historyMap if_False)
  then show ?thesis
    by (simp add: historyBoost_of_def example_store51_def example_entry_def)
qed

text \<open>
  Claim C6 as the code has it, on the example history, 60 and 90 days after its first
  upload: a document without an entry, and a document uploaded twice, last 30 days
  before.
\<close>

theorem history_boost_witness:
  "example_entry ''23S/OS/HW1.pdf'' ''a.edu'' 0 \<in> set example_history \<and>
   length (filter (\<lambda>h. websiteHost h = ''a.edu'') example_history) \<le> 50 \<and>
   60 * ONE_DAY \<le> 90 * ONE_DAY \<and>
   historyBoost_of (Map_get (historyMap_of (match_history example_history ''a.edu'')) ''other.pdf'') (60 * ONE_DAY) = 0 \<and>
   historyBoost_of (Map_get (historyMap_of (match_history example_history ''a.edu'')) ''23S/OS/HW1.pdf'') (60 * ONE_DAY) = 2 / 3 \<and>
   historyBoost_of (Map_get (historyMap_of (match_history example_history ''a.edu'')) ''23S/OS/HW1.pdf'') (90 * ONE_DAY)
     \<le> historyBoost_of (Map_get (historyMap_of (match_history example_history ''a.edu'')) ''23S/OS/HW1.pdf'') (60 * ONE_DAY) \<and>
   historyBoost_of (Map_get (historyMap_of (match_history example_history ''a.edu'')) ''23S/OS/HW1.pdf'') (60 * ONE_DAY) \<le> 1"
proof -
  have h: "''a.edu'' \<noteq> [] \<and> length (filter (\<lambda>h. websiteHost h = ''a.edu'') example_history) \<le> 50"
    by (simp add: example_history_def example_entry_def)
  have s: "{h \<in> set example_history. websiteHost h = ''a.edu''} = set example_history"
    by (auto simp: example_history_def example_entry_def)
  have m: "''23S/OS/HW1.pdf'' \<in> fileId ` {h \<in> set example_history. websiteHost h = ''a.edu''}"
    and n: "''other.pdf'' \<notin> fileId ` {h \<in> set example_history. websiteHost h = ''a.edu''}"
    unfolding s by (simp_all add: example_history_def example_entry_def)
  have t: "\<forall>h \<in> set example_history. websiteHost h = ''a.edu'' \<longrightarrow> timestamp h \<le> 60 * ONE_DAY"
    and l: "60 * ONE_DAY \<le> 90 * ONE_DAY"
    and e: "example_entry ''23S/OS/HW1.pdf'' ''a.edu'' 0 \<in> set example_history"
    by (simp_all add: example_history_def example_entry_def ONE_DAY_def)
  have v: "historyBoost_of (Map_get (historyMap_of (match_history example_history ''a.edu'')) ''23S/OS/HW1.pdf'') (60 * ONE_DAY) = 2 / 3"
    by (simp add: example_history_fetch example_historyMap Map_get_def historyBoost_of_def ONE_DAY_def)
  from history_boost [of "''a.edu''" example_history "''23S/OS/HW1.pdf''" "60 * ONE_DAY" "90 * ONE_DAY"] h m t l
  have a: "historyBoost_of (Map_get (historyMap_of (match_history example_history ''a.edu'')) ''23S/OS/HW1.pdf'') (90 * ONE_DAY)
     \<le> historyBoost_of (Map_get (historyMap_of (match_history example_history ''a.edu'')) ''23S/OS/HW1.pdf'') (60 * ONE_DAY)"
    and b: "historyBoost_of (Map_get (historyMap_of (match_history example_history ''a.edu'')) ''23S/OS/HW1.pdf'') (60 * ONE_DAY) \<le> 1.0"
    by blast+
  from history_boost [of "''a.edu''" example_history "''other.pdf''" "60 * ONE_DAY" "90 * ONE_DAY"] h n
  have z: "historyBoost_of (Map_get (historyMap_of (match_history example_history ''a.edu'')) ''other.pdf'') (60 * ONE_DAY) = 0"
    by blast
  from e h l z v a b show ?thesis by simp
qed


subsection \<open>Cosine similarity\<close>

lemma cosine_loop:
  "n \<le> length a \<Longrightarrow>
   foldl (cosine_step a b) (0, 0, 0) [0..<n] =
     (if n \<le> length b then Fin (\<Sum>i<n. a ! i * b ! i) else NaN,
      Fin (\<Sum>i<n. a ! i * a ! i),
      if n \<le> length b then Fin (\<Sum>i<n. b ! i * b ! i) else NaN)"
proof (induction n)
  case 0
  show ?case by (simp add: zero_number_def)
next
  case (Suc n)
  then show ?case
    by (auto simp: cosine_step_def js_nth_def)
qed

lemma cosine_unfold:
  "cosine a b =
     (case foldl (cosine_step a b) (0, 0, 0) [0..<length a] of
        (dotAB, normA, normB) \<Rightarrow>
          if normA = Fin 0 \<or> normB = Fin 0 then Fin 0
          else dotAB / (Math_sqrt normA * Math_sqrt normB))"
  by (simp add: cosine_def)

lemma sum_squares_nonneg: "0 \<le> (\<Sum>i<n. (f i :: real) * f i)"
  by (rule sum_nonneg) simp

lemma cosine_long:
  assumes "length a \<le> length b"
  shows "cosine a b =
     (if (\<Sum>i<length a. a ! i * a ! i) = 0 \<or> (\<Sum>i<length a. b ! i * b ! i) = 0 then Fin 0
      else Fin ((\<Sum>i<length a. a ! i * b ! i) /
                (sqrt (\<Sum>i<length a. a ! i * a ! i) * sqrt (\<Sum>i<length a. b ! i * b ! i))))"
  using assms sum_squares_nonneg [of "\<lambda>i. a ! i" "length a"] sum_squares_nonneg [of "\<lambda>i. b ! i" "length a"]
  by (simp add: cosine_unfold cosine_loop not_less)

lemma cosine_short:
  assumes "length b < length a"
  shows "cosine a b = (if (\<Sum>i<length a. a ! i * a ! i) = 0 then Fin 0 else NaN)"
  using assms by (simp add: cosine_unfold cosine_loop)

lemma cosine_truncates:
  assumes "length a \<le> length b"
  shows "cosine a b = cosine a (take (length a) b)"
proof -
  have "length a \<le> length (take (length a) b)" using assms by simp
  then show ?thesis
    using assms by (simp add: cosine_long)
qed

lemma cosine_positive_length: "Fin 0 < cosine a b \<Longrightarrow> length a \<le> length b"
  by (rule ccontr) (simp add: cosine_short not_le split: if_splits)

subsection \<open>Sorting and searching\<close>

lemma set_sort_insert: "set (sort_insert c x ys) = insert x (set ys)"
  by (induction ys) auto

lemma Array_sort_Cons: "Array_sort c (x # xs) = sort_insert c x (Array_sort c xs)"
  by (simp add: Array_sort_def)

lemma Array_sort_Nil: "Array_sort c [] = []"
  by (simp add: Array_sort_def)

lemma set_Array_sort: "set (Array_sort c xs) = set xs"
  by (induction xs) (simp_all add: Array_sort_Nil Array_sort_Cons set_sort_insert)

lemma sorted_sort_insert:
  assumes "\<forall>y \<in> set ys. c x y = Fin (key y - key x)"
    and "sorted_wrt (\<lambda>a b. key b \<le> (key a :: real)) ys"
  shows "sorted_wrt (\<lambda>a b. key b \<le> key a) (sort_insert c x ys)"
  using assms
proof (induction ys)
  case Nil
  show ?case by simp
next
  case (Cons y ys)
  show ?case
  proof (cases "Fin 0 < c x y")
    case True
    with Cons.prems have "key x < key y" by simp
    with Cons show ?thesis using True by (auto simp: set_sort_insert)
  next
    case False
    with Cons.prems have "key y \<le> key x" by simp
    with Cons.prems show ?thesis using False by auto
  qed
qed

lemma sorted_Array_sort:
  assumes "\<forall>a \<in> set xs. \<forall>b \<in> set xs. c a b = Fin (key b - key a)"
  shows "sorted_wrt (\<lambda>a b. key b \<le> (key a :: real)) (Array_sort c xs)"
  using assms
proof (induction xs)
  case Nil
  show ?case by (simp add: Array_sort_Nil)
next
  case (Cons x xs)
  then show ?case
    by (simp add: Array_sort_Cons sorted_sort_insert set_Array_sort)
qed

lemma filter_take_sorted:
  "sorted_wrt (\<lambda>a b. key b \<le> (key a :: real)) xs \<Longrightarrow>
   filter (\<lambda>r. 0 < key r) (take n xs) = take n (filter (\<lambda>r. 0 < key r) xs)"
proof (induction xs arbitrary: n)
  case Nil
  show ?case by simp
next
  case (Cons x xs)
  show ?case
  proof (cases n)
    case 0
    then show ?thesis by simp
  next
    case (Suc m)
    show ?thesis
    proof (cases "0 < key x")
      case True
      with Cons Suc show ?thesis by simp
    next
      case False
      with Cons.prems have "\<forall>y \<in> set xs. \<not> 0 < key y" by auto
      then have "filter (\<lambda>r. 0 < key r) xs = []" and "filter (\<lambda>r. 0 < key r) (take m xs) = []"
        by (auto simp: filter_empty_conv dest: in_set_takeD)
      with False Suc show ?thesis by simp
    qed
  qed
qed

lemma set_accept_filtered: "set (accept_filtered f all) \<subseteq> set all"
  by (simp add: accept_filtered_def)

lemma set_search_candidates: "set (search_candidates all f) \<subseteq> set all"
proof (cases f)
  case None
  then show ?thesis by (simp add: search_candidates_def)
next
  case (Some a)
  then show ?thesis using set_accept_filtered [of a all] by (simp add: search_candidates_def Let_def)
qed

lemma set_search: "set (search q all n f) \<subseteq> set (scored q (search_candidates all f))"
  by (auto simp: search_def set_Array_sort dest: in_set_takeD)

lemma in_scored: "r \<in> set (scored q cs) \<Longrightarrow> srecord r \<in> set cs \<and> score r = cosine q (vector (srecord r))"
  by (auto simp: scored_def)

lemma in_search:
  assumes "r \<in> set (search q all n f)"
  shows "srecord r \<in> set (search_candidates all f) \<and> score r = cosine q (vector (srecord r)) \<and>
         Fin 0 < score r"
proof -
  from assms set_search have "r \<in> set (scored q (search_candidates all f))" by blast
  moreover from assms have "Fin 0 < score r" by (simp add: search_def)
  ultimately show ?thesis by (simp add: in_scored)
qed

lemma cosine_take: "cosine q v = cosine q (take (length q) v)"
proof (cases "length q \<le> length v")
  case True
  then show ?thesis by (rule cosine_truncates)
next
  case False
  then show ?thesis by simp
qed

lemma length_sort_insert: "length (sort_insert c x ys) = Suc (length ys)"
  by (induction ys) auto

lemma length_Array_sort: "length (Array_sort c xs) = length xs"
  by (induction xs) (simp_all add: Array_sort_Nil Array_sort_Cons length_sort_insert)

lemma sort_insert_map:
  assumes "\<forall>a b. c' (g a) (g b) = c a b"
  shows "sort_insert c' (g x) (map g ys) = map g (sort_insert c x ys)"
  using assms by (induction ys) auto

lemma Array_sort_map:
  assumes "\<forall>a b. c' (g a) (g b) = c a b"
  shows "Array_sort c' (map g xs) = map g (Array_sort c xs)"
proof (induction xs)
  case Nil
  show ?case by (simp add: Array_sort_Nil)
next
  case (Cons x xs)
  then show ?case
    using sort_insert_map [of c' g c x "Array_sort c xs"] assms by (simp add: Array_sort_Cons)
qed

lemma accept_match_truncated: "accept_match accepts (truncated q r) = accept_match accepts r"
  by (simp add: accept_match_def truncated_def)

lemma accept_filtered_truncated:
  "accept_filtered f (map (truncated q) all) = map (truncated q) (accept_filtered f all)"
  by (simp add: accept_filtered_def filter_map comp_def accept_match_truncated)

lemma search_candidates_truncated:
  "search_candidates (map (truncated q) all) f = map (truncated q) (search_candidates all f)"
  by (cases f) (simp_all add: search_candidates_def accept_filtered_truncated Let_def)

lemma scored_truncated:
  "scored q (map (truncated q) cs) =
     map (\<lambda>s. s\<lparr>srecord := truncated q (srecord s)\<rparr>) (scored q cs)"
proof -
  have "cosine q (vector (truncated q r)) = cosine q (vector r)" for r
    using cosine_take [of q "vector r"] by (simp add: truncated_def)
  then show ?thesis by (simp add: scored_def)
qed

lemma search_truncated:
  "search q (map (truncated q) all) n f =
     map (\<lambda>s. s\<lparr>srecord := truncated q (srecord s)\<rparr>) (search q all n f)"
proof -
  let ?g = "\<lambda>s :: SearchResult. s\<lparr>srecord := truncated q (srecord s)\<rparr>"
  let ?c = "\<lambda>a b :: SearchResult. score b - score a"
  have "\<forall>a b. ?c (?g a) (?g b) = ?c a b" by simp
  then have s: "Array_sort ?c (map ?g xs) = map ?g (Array_sort ?c xs)" for xs
    by (rule Array_sort_map)
  have p: "(\<lambda>r. Fin 0 < score r) \<circ> ?g = (\<lambda>r. Fin 0 < score r)" by (simp add: comp_def)
  show ?thesis
    by (simp only: search_def search_candidates_truncated scored_truncated s take_map filter_map p)
qed

lemma search_no_cut:
  assumes "length (search_candidates all f) \<le> n"
  shows "set (search q all n f) = {s \<in> set (scored q (search_candidates all f)). Fin 0 < score s}"
proof -
  let ?xs = "Array_sort (\<lambda>a b. score b - score a) (scored q (search_candidates all f))"
  have "length ?xs \<le> n" using assms by (simp add: length_Array_sort scored_def)
  then have "take n ?xs = ?xs" by simp
  then show ?thesis by (auto simp: search_def set_Array_sort)
qed

text \<open>
  Claim C1, as the code has it: \<^verbatim>\<open>search\<close> makes no comparison of lengths. A record
  whose stored vector is shorter than the query vector is never returned. A stored vector
  is compared on its first components only, as many as the query vector has; a record
  with a longer vector is not excluded: when \<open>topN\<close> is at least the number of
  candidates, the results are exactly the candidates of positive score, and for every
  \<open>topN\<close> the results are those for the store with every vector cut to the length of
  the query vector.
\<close>

theorem search_dimension_mismatch:
  "(\<forall>r \<in> set (search q all n f). length q \<le> length (vector (srecord r))) \<and>
   cosine q v = cosine q (take (length q) v) \<and>
   (length (search_candidates all f) \<le> n \<longrightarrow>
      set (search q all n f) = {s \<in> set (scored q (search_candidates all f)). Fin 0 < score s}) \<and>
   search q (map (truncated q) all) n f =
     map (\<lambda>s. s\<lparr>srecord := truncated q (srecord s)\<rparr>) (search q all n f)"
proof (intro conjI ballI impI)
  fix r assume "r \<in> set (search q all n f)"
  then have a: "score r = cosine q (vector (srecord r))" and b: "Fin 0 < score r"
    using in_search [of r q all n f] by blast+
  from b have "Fin 0 < cosine q (vector (srecord r))" unfolding a .
  then show "length q \<le> length (vector (srecord r))" by (rule cosine_positive_length)
next
  show "cosine q v = cosine q (take (length q) v)" by (rule cosine_take)
next
  assume "length (search_candidates all f) \<le> n"
  then show "set (search q all n f) = {s \<in> set (scored q (search_candidates all f)). Fin 0 < score s}"
    by (rule search_no_cut)
next
  show "search q (map (truncated q) all) n f =
     map (\<lambda>s. s\<lparr>srecord := truncated q (srecord s)\<rparr>) (search q all n f)"
    by (rule search_truncated)
qed

lemma cosine_example_1: "cosine [1, 0] [1, 0, 5] = Fin 1"
  by (simp add: cosine_long sum.lessThan_Suc)

lemma cosine_example_2: "cosine [1, 0] [1] = NaN"
  by (simp add: cosine_short sum.lessThan_Suc)

lemma cosine_example_3: "cosine [1, 0] [1, 0] = Fin 1"
  by (simp add: cosine_long sum.lessThan_Suc)

lemma cosine_example_4: "cosine [1, 0] [0, 1] = Fin 0"
  by (simp add: cosine_long sum.lessThan_Suc)

text \<open>
  Claim C1 as stated fails: a record whose stored vector has three components is compared
  with a query vector of two components, on the first two, and is returned with score 1.
\<close>

theorem search_dimension_mismatch_counterexample:
  "length (vector (example_file ''old.pdf'' ''application/pdf'' [1, 0, 5])) \<noteq> length [1, 0 :: real] \<and>
   search [1, 0] [example_file ''old.pdf'' ''application/pdf'' [1, 0, 5]] 5 None =
     [\<lparr>srecord = example_file ''old.pdf'' ''application/pdf'' [1, 0, 5], score = Fin 1\<rparr>]"
proof -
  have "vector (example_file ''old.pdf'' ''application/pdf'' [1, 0, 5]) = [1, 0, 5]"
    by (simp add: example_file_def)
  then show ?thesis
    by (simp add: search_def search_candidates_def scored_def Array_sort_def cosine_example_1)
qed

text \<open>Claim C1 as the code has it, on the same record.\<close>

theorem search_dimension_mismatch_witness:
  "length (search_candidates [example_file ''old.pdf'' ''application/pdf'' [1, 0, 5]] None) \<le> 5 \<and>
   \<lparr>srecord = example_file ''old.pdf'' ''application/pdf'' [1, 0, 5], score = Fin 1\<rparr>
     \<in> set (search [1, 0] [example_file ''old.pdf'' ''application/pdf'' [1, 0, 5]] 5 None) \<and>
   length [1, 0 :: real] \<le> length (vector (example_file ''old.pdf'' ''application/pdf'' [1, 0, 5])) \<and>
   cosine [1, 0] [1, 0, 5] = cosine [1, 0] (take (length [1, 0 :: real]) [1, 0, 5]) \<and>
   search [1, 0] [truncated [1, 0] (example_file ''old.pdf'' ''application/pdf'' [1, 0, 5])] 5 None =
     [\<lparr>srecord = truncated [1, 0] (example_file ''old.pdf'' ''application/pdf'' [1, 0, 5]), score = Fin 1\<rparr>]"
proof -
  let ?old = "example_file ''old.pdf'' ''application/pdf'' [1, 0, 5]"
  let ?res = "\<lparr>srecord = ?old, score = Fin 1\<rparr>"
  have v: "vector ?old = [1, 0, 5]"
    by (simp add: example_file_def)
  have c: "length (search_candidates [?old] None) \<le> 5"
    by (simp add: search_candidates_def)
  have s: "?res \<in> set (scored [1, 0] (search_candidates [?old] None))" and p: "Fin 0 < score ?res"
    by (simp_all add: search_candidates_def scored_def cosine_example_1 v)
  note t = search_dimension_mismatch [of "[1, 0]" "[?old]" 5 None "[1, 0, 5]"]
  from t c s p have m: "?res \<in> set (search [1, 0] [?old] 5 None)" by blast
  with t have l: "length [1, 0 :: real] \<le> length (vector (srecord ?res))" by blast
  from t have k: "cosine [1, 0] [1, 0, 5] = cosine [1, 0] (take (length [1, 0 :: real]) [1, 0, 5])"
    by blast
  have e: "search [1, 0] [?old] 5 None = [?res]"
    by (simp add: search_def search_candidates_def scored_def Array_sort_def cosine_example_1 v)
  from t have "search [1, 0] (map (truncated [1, 0]) [?old]) 5 None =
     map (\<lambda>s. s\<lparr>srecord := truncated [1, 0] (srecord s)\<rparr>) (search [1, 0] [?old] 5 None)"
    by blast
  then have u: "search [1, 0] [truncated [1, 0] ?old] 5 None =
     [\<lparr>srecord = truncated [1, 0] ?old, score = Fin 1\<rparr>]"
    by (simp add: e)
  from c m l k u show ?thesis by simp
qed

lemma sorted_scores:
  assumes "\<forall>r \<in> set xs. sc r = Fin (the_real (sc r))"
  shows "sorted_wrt (\<lambda>a b. the_real (sc b) \<le> the_real (sc a))
           (Array_sort (\<lambda>a b. sc b - sc a) xs)"
proof (rule sorted_Array_sort, intro ballI)
  fix a b assume "a \<in> set xs" "b \<in> set xs"
  with assms have "sc a = Fin (the_real (sc a))" "sc b = Fin (the_real (sc b))" by simp_all
  then have "sc b - sc a = Fin (the_real (sc b)) - Fin (the_real (sc a))" by simp
  then show "sc b - sc a = Fin (the_real (sc b) - the_real (sc a))"
    by simp
qed

lemma filter_pos_Fin:
  assumes "\<forall>r \<in> set xs. score r = Fin (the_real (score r))"
  shows "filter (\<lambda>r. Fin 0 < score r) xs = filter (\<lambda>r. 0 < the_real (score r)) xs"
    and "filter (\<lambda>r. \<not> score r \<le> Fin 0) xs = filter (\<lambda>r. 0 < the_real (score r)) xs"
proof -
  have "Fin 0 < score r \<longleftrightarrow> 0 < the_real (score r)"
       "\<not> score r \<le> Fin 0 \<longleftrightarrow> 0 < the_real (score r)" if "r \<in> set xs" for r
  proof -
    from that assms have "score r = Fin (the_real (score r))" by simp
    then obtain x where x: "score r = Fin x" ..
    show "Fin 0 < score r \<longleftrightarrow> 0 < the_real (score r)"
      by (simp add: x)
    show "\<not> score r \<le> Fin 0 \<longleftrightarrow> 0 < the_real (score r)"
      by (simp add: x not_le)
  qed
  then show "filter (\<lambda>r. Fin 0 < score r) xs = filter (\<lambda>r. 0 < the_real (score r)) xs"
    and "filter (\<lambda>r. \<not> score r \<le> Fin 0) xs = filter (\<lambda>r. 0 < the_real (score r)) xs"
    by (simp_all cong: filter_cong)
qed

lemma le_Fin_the_real:
  "a = Fin (the_real a) \<Longrightarrow> b = Fin (the_real b) \<Longrightarrow> the_real b \<le> the_real a \<Longrightarrow> b \<le> a"
  by (cases a; cases b) simp_all

lemma sorted_Fin_scores:
  assumes "sorted_wrt (\<lambda>a b. the_real (sc b) \<le> the_real (sc a)) xs"
    and "\<forall>r \<in> set xs. sc r = Fin (the_real (sc r))"
  shows "sorted_wrt (\<lambda>a b. sc b \<le> sc a) xs"
  using assms by (induction xs) (auto intro: le_Fin_the_real)

lemma not_NaN_Fin: "x \<noteq> NaN \<Longrightarrow> x = Fin (the_real x)"
  by (cases x) simp_all

lemma top_results_meet_spec:
  assumes "\<forall>s \<in> set xs. score s \<noteq> NaN"
  shows "top_results n xs = top_results_spec n xs \<and>
         sorted_wrt (\<lambda>a b. score b \<le> score a) (top_results n xs)"
proof -
  let ?sorted = "Array_sort (\<lambda>a b. score b - score a) xs"
  have fin: "\<forall>r \<in> set xs. score r = Fin (the_real (score r))"
    using assms by (simp add: not_NaN_Fin)
  then have fin_sorted: "\<forall>r \<in> set ?sorted. score r = Fin (the_real (score r))"
    by (simp add: set_Array_sort)
  then have fin_take: "\<forall>r \<in> set (take n ?sorted). score r = Fin (the_real (score r))"
    by (auto dest: in_set_takeD)
  have sorted: "sorted_wrt (\<lambda>a b. the_real (score b) \<le> the_real (score a)) ?sorted"
    using fin by (rule sorted_scores)
  have "top_results n xs = filter (\<lambda>r. 0 < the_real (score r)) (take n ?sorted)"
    unfolding top_results_def using fin_take by (rule filter_pos_Fin(1))
  also have "\<dots> = take n (filter (\<lambda>r. 0 < the_real (score r)) ?sorted)"
    using sorted by (rule filter_take_sorted)
  also have "\<dots> = top_results_spec n xs"
    unfolding top_results_spec_def using filter_pos_Fin(2) [OF fin_sorted] by simp
  finally have eq: "top_results n xs = top_results_spec n xs" .
  have "sorted_wrt (\<lambda>a b. the_real (score b) \<le> the_real (score a)) (top_results n xs)"
    unfolding top_results_def using sorted by (simp add: sorted_wrt_filter sorted_wrt_take)
  moreover have "\<forall>r \<in> set (top_results n xs). score r = Fin (the_real (score r))"
    unfolding top_results_def using fin_take by simp
  ultimately have "sorted_wrt (\<lambda>a b. score b \<le> score a) (top_results n xs)"
    by (rule sorted_Fin_scores)
  with eq show ?thesis by simp
qed

lemma search_top_results:
  "search q all n f = top_results n (scored q (search_candidates all f))"
  "search_spec q all n f = top_results_spec n (scored q (search_candidates all f))"
  by (simp_all add: search_def search_spec_def top_results_def top_results_spec_def)

text \<open>
  Claim C3, as the code has it: when no candidate's cosine score is \<^verbatim>\<open>NaN\<close>,
  \<^verbatim>\<open>search\<close> returns what the specification describes (sort descending by score,
  drop the entries with score at most 0, take the top \<open>n\<close>), and the result is sorted
  by score, descending. Taking the top \<open>n\<close> before or after the filter gives the same
  list for any scored candidates without a \<^verbatim>\<open>NaN\<close> score, however the scores were
  computed.
\<close>

theorem search_meets_spec:
  "search q all n f = top_results n (scored q (search_candidates all f)) \<and>
   search_spec q all n f = top_results_spec n (scored q (search_candidates all f)) \<and>
   ((\<forall>s \<in> set xs. score s \<noteq> NaN) \<longrightarrow>
      top_results n xs = top_results_spec n xs \<and>
      sorted_wrt (\<lambda>a b. score b \<le> score a) (top_results n xs)) \<and>
   ((\<forall>r \<in> set (search_candidates all f). cosine q (vector r) \<noteq> NaN) \<longrightarrow>
      search q all n f = search_spec q all n f \<and>
      sorted_wrt (\<lambda>a b. score b \<le> score a) (search q all n f))"
proof (intro conjI impI)
  show "search q all n f = top_results n (scored q (search_candidates all f))"
    and "search_spec q all n f = top_results_spec n (scored q (search_candidates all f))"
    by (rule search_top_results)+
next
  assume "\<forall>s \<in> set xs. score s \<noteq> NaN"
  then show "top_results n xs = top_results_spec n xs"
    and "sorted_wrt (\<lambda>a b. score b \<le> score a) (top_results n xs)"
    using top_results_meet_spec by blast+
next
  assume a: "\<forall>r \<in> set (search_candidates all f). cosine q (vector r) \<noteq> NaN"
  have "\<forall>s \<in> set (scored q (search_candidates all f)). score s \<noteq> NaN"
  proof
    fix s assume "s \<in> set (scored q (search_candidates all f))"
    then have "srecord s \<in> set (search_candidates all f)" "score s = cosine q (vector (srecord s))"
      by (simp_all add: in_scored)
    with a show "score s \<noteq> NaN" by simp
  qed
  then show "search q all n f = search_spec q all n f"
    and "sorted_wrt (\<lambda>a b. score b \<le> score a) (search q all n f)"
    unfolding search_top_results using top_results_meet_spec by blast+
qed

text \<open>
  Claim C3 as stated fails: the score of a record whose stored vector is shorter than the
  query vector is \<^verbatim>\<open>NaN\<close>, the comparator leaves it in front of a record of score 1,
  and with \<open>topN = 1\<close> the code returns nothing, where sorting, dropping and then
  taking the first entry returns an entry. The two records are in the order of their
  keys.
\<close>

theorem search_meets_spec_counterexample:
  "getAll_ordered [example_file ''a.pdf'' ''application/pdf'' [1],
                   example_file ''b.pdf'' ''application/pdf'' [1, 0]] \<and>
   cosine [1, 0] (vector (example_file ''b.pdf'' ''application/pdf'' [1, 0])) = Fin 1 \<and>
   search [1, 0] [example_file ''a.pdf'' ''application/pdf'' [1],
                  example_file ''b.pdf'' ''application/pdf'' [1, 0]] 1 None = [] \<and>
   search_spec [1, 0] [example_file ''a.pdf'' ''application/pdf'' [1],
                       example_file ''b.pdf'' ''application/pdf'' [1, 0]] 1 None \<noteq> []"
proof -
  have v: "vector (example_file ''a.pdf'' ''application/pdf'' [1]) = [1]"
    "vector (example_file ''b.pdf'' ''application/pdf'' [1, 0]) = [1, 0]"
    by (simp_all add: example_file_def)
  have o: "getAll_ordered [example_file ''a.pdf'' ''application/pdf'' [1],
                   example_file ''b.pdf'' ''application/pdf'' [1, 0]]"
    by (simp add: getAll_ordered_def example_file_def)
  show ?thesis
    by (simp add: o search_def search_spec_def search_candidates_def scored_def Array_sort_def
        cosine_example_2 cosine_example_3 v)
qed

text \<open>Claim C3 as the code has it, on two records without a \<^verbatim>\<open>NaN\<close> score.\<close>

theorem search_meets_spec_witness:
  "getAll_ordered [example_file ''a.pdf'' ''application/pdf'' [0, 1],
                   example_file ''b.pdf'' ''application/pdf'' [1, 0]] \<and>
   cosine [1, 0] (vector (example_file ''a.pdf'' ''application/pdf'' [0, 1])) = Fin 0 \<and>
   cosine [1, 0] (vector (example_file ''b.pdf'' ''application/pdf'' [1, 0])) = Fin 1 \<and>
   search [1, 0] [example_file ''a.pdf'' ''application/pdf'' [0, 1],
                  example_file ''b.pdf'' ''application/pdf'' [1, 0]] 1 None =
   search_spec [1, 0] [example_file ''a.pdf'' ''application/pdf'' [0, 1],
                       example_file ''b.pdf'' ''application/pdf'' [1, 0]] 1 None \<and>
   search [1, 0] [example_file ''a.pdf'' ''application/pdf'' [0, 1],
                  example_file ''b.pdf'' ''application/pdf'' [1, 0]] 1 None =
     [\<lparr>srecord = example_file ''b.pdf'' ''application/pdf'' [1, 0], score = Fin 1\<rparr>]"
proof -
  let ?all = "[example_file ''a.pdf'' ''application/pdf'' [0, 1],
               example_file ''b.pdf'' ''application/pdf'' [1, 0]]"
  have v: "vector (example_file ''a.pdf'' ''application/pdf'' [0, 1]) = [0, 1]"
    "vector (example_file ''b.pdf'' ''application/pdf'' [1, 0]) = [1, 0]"
    by (simp_all add: example_file_def)
  have o: "getAll_ordered ?all"
    by (simp add: getAll_ordered_def example_file_def)
  have h: "\<forall>r \<in> set (search_candidates ?all None). cosine [1, 0] (vector r) \<noteq> NaN"
    by (simp add: search_candidates_def v cosine_example_3 cosine_example_4)
  have e: "search [1, 0] ?all 1 None =
     [\<lparr>srecord = example_file ''b.pdf'' ''application/pdf'' [1, 0], score = Fin 1\<rparr>]"
    by (simp add: search_def search_candidates_def scored_def Array_sort_def
        cosine_example_3 cosine_example_4 v)
  from search_meets_spec [of "[1, 0]" ?all 1 None "[]"] h
  have "search [1, 0] ?all 1 None = search_spec [1, 0] ?all 1 None" by blast
  with o e show ?thesis by (simp add: v cosine_example_3 cosine_example_4)
qed

subsection \<open>The accept filter\<close>

lemma search_candidates_Some:
  "f \<noteq> [] \<Longrightarrow>
   search_candidates all (Some f) =
     (if accept_filtered f all = [] then all else accept_filtered f all)"
  by (simp add: search_candidates_def Let_def)




lemma example_accept_pdf:
  "accept_filtered ''.pdf'' [example_file ''a.pdf'' ''application/pdf'' [0, 1],
                             example_file ''b.jpg'' ''image/jpeg'' [0, 1]] =
     [example_file ''a.pdf'' ''application/pdf'' [0, 1]]"
  by (simp add: accept_filtered_def accept_match_def pop_ext_def example_file_def trim_def
      is_whitespace_def toLowerCase_def toLowerCase_char_def endsWith_def startsWith_def)


lemma example_accept_wildcard:
  "accept_filtered ''.zip, image/*'' [example_file ''a.pdf'' ''application/pdf'' [0, 1],
                             example_file ''b.jpg'' ''image/jpeg'' [0, 1]] =
     [example_file ''b.jpg'' ''image/jpeg'' [0, 1]]"
  by (simp add: accept_filtered_def accept_match_def pop_ext_def example_file_def trim_def
      is_whitespace_def toLowerCase_def toLowerCase_char_def endsWith_def startsWith_def)


subsection \<open>The ranked results\<close>

lemma search_scores_Fin:
  "r \<in> set (search q all n f) \<Longrightarrow> score r = Fin (the_real (score r))"
proof -
  assume "r \<in> set (search q all n f)"
  then have "Fin 0 < score r" using in_search [of r q all n f] by blast
  then show ?thesis by (cases "score r") simp_all
qed

lemma allRecords_scores_Fin:
  assumes "r \<in> set (match_allRecords queryVec all accept)"
  shows "score r = Fin (the_real (score r))"
proof (cases "Fin 0.05 < match_maxTfidf (match_tfidfResults queryVec all accept)")
  case False
  with assms show ?thesis by (auto simp: match_allRecords_def Let_def)
next
  case True
  with assms have "r \<in> set (match_tfidfResults queryVec all accept)"
    by (simp add: match_allRecords_def Let_def)
  then have "r \<in> set (search queryVec all 15 accept)"
    by (simp add: match_tfidfResults_def split: if_splits)
  then show ?thesis by (rule search_scores_Fin)
qed

lemma rank_record_Fin:
  assumes "score r = Fin (the_real (score r))"
  shows "rk_score (rank_record tf cx u ff tot hm now r) =
         Fin (the_real (rk_score (rank_record tf cx u ff tot hm now r)))"
proof -
  from assms obtain x where "score r = Fin x" ..
  then show ?thesis by (simp add: rank_record_def Let_def)
qed

lemma match_ranked_Fin:
  assumes "r \<in> set (match_ranked tf hn vocabulary idfValues all historyStore now req)"
  shows "rk_score r = Fin (the_real (rk_score r))"
proof -
  from assms obtain s where s: "s \<in> set (match_allRecords (vectorize vocabulary idfValues (tokenize (req_context req))) all (req_accept req))"
    and r: "r = rank_record tf (req_context req)
          (Fin 0.05 < match_maxTfidf (match_tfidfResults (vectorize vocabulary idfValues (tokenize (req_context req))) all (req_accept req)))
          (folderFreq_of (match_history historyStore (match_pageHost hn (req_pageUrl req))))
          (totalFolderUploads_of (folderFreq_of (match_history historyStore (match_pageHost hn (req_pageUrl req)))))
          (historyMap_of (match_history historyStore (match_pageHost hn (req_pageUrl req)))) now s"
    by (auto simp: match_ranked_def Let_def)
  from s have "score s = Fin (the_real (score s))" by (rule allRecords_scores_Fin)
  then show ?thesis unfolding r by (rule rank_record_Fin)
qed

text \<open>
  Claim C4: the results of \<^verbatim>\<open>handleMatch\<close> are sorted by score, descending, every
  score is greater than 0, and there are at most 5 results.
\<close>

theorem handleMatch_sorted_positive_top5:
  "sorted_wrt (\<lambda>a b. res_score b \<le> res_score a)
     (handleMatch tf hn vocabulary idfValues all historyStore now req) \<and>
   (\<forall>r \<in> set (handleMatch tf hn vocabulary idfValues all historyStore now req). Fin 0 < res_score r) \<and>
   length (handleMatch tf hn vocabulary idfValues all historyStore now req) \<le> 5"
proof -
  let ?unsorted = "match_ranked tf hn vocabulary idfValues all historyStore now req"
  let ?ranked = "Array_sort (\<lambda>a b. rk_score b - rk_score a) ?unsorted"
  let ?top = "filter (\<lambda>r. Fin 0 < rk_score r) (take 5 ?ranked)"
  let ?item = "\<lambda>r. \<lparr>res_id = id_rec (rk_record r), res_name = name (rk_record r),
                    res_path = path (rk_record r), res_type = type (rk_record r),
                    res_score = rk_score r, res_historyCount = rk_historyCount r\<rparr>"
  have hm: "handleMatch tf hn vocabulary idfValues all historyStore now req = map ?item ?top"
    by (simp add: handleMatch_def Let_def)
  have fin0: "\<forall>r \<in> set ?unsorted. rk_score r = Fin (the_real (rk_score r))"
    using match_ranked_Fin by blast
  then have "sorted_wrt (\<lambda>a b. the_real (rk_score b) \<le> the_real (rk_score a)) ?ranked"
    by (rule sorted_scores)
  then have "sorted_wrt (\<lambda>a b. the_real (rk_score b) \<le> the_real (rk_score a)) ?top"
    by (simp add: sorted_wrt_filter sorted_wrt_take)
  moreover have "\<forall>r \<in> set ?top. rk_score r = Fin (the_real (rk_score r))"
    using fin0 by (auto simp: set_Array_sort dest: in_set_takeD)
  ultimately have "sorted_wrt (\<lambda>a b. rk_score b \<le> rk_score a) ?top"
    by (rule sorted_Fin_scores)
  then have "sorted_wrt (\<lambda>a b. res_score b \<le> res_score a) (map ?item ?top)"
    by (simp add: sorted_wrt_map)
  moreover have "\<forall>r \<in> set (map ?item ?top). Fin 0 < res_score r" by auto
  moreover have "length (map ?item ?top) \<le> 5"
  proof -
    have "length ?top \<le> length (take 5 ?ranked)" by (rule length_filter_le)
    also have "\<dots> \<le> 5" by simp
    finally show ?thesis by simp
  qed
  ultimately show ?thesis unfolding hm by blast
qed

lemma example_tokens:
  "tokenize ''resume'' = [''resume'']" "tokenize ''notes'' = [''notes'']" "tokenize [] = []"
  by (simp_all add: tokenize_def toLowerCase_def toLowerCase_char_def trim_def is_whitespace_def
      is_alnum_def is_cjk_def)

lemma example_overlaps:
  "computePathNameScore tokenize ''resume'' ''resume'' = 1"
  "computePathNameScore tokenize ''notes'' ''resume'' = 0"
  "computeContentOverlap tokenize [] ''resume'' = 0"
  by (simp_all add: computePathNameScore_def computeContentOverlap_def replace_separators_def
      example_tokens new_Set_def Set_add_def)

lemma example_handleMatch:
  "handleMatch tokenize (\<lambda>u. Some u) [] []
     [example_file ''notes'' ''text/plain'' [], example_file ''resume'' ''application/pdf'' []]
     [] 0 \<lparr>req_context = ''resume'', req_accept = None, req_pageUrl = None\<rparr> =
   [\<lparr>res_id = ''resume'', res_name = ''resume'', res_path = ''resume'',
     res_type = ''application/pdf'', res_score = Fin 0.44, res_historyCount = 0\<rparr>]"
  by (simp add: handleMatch_def match_ranked_def match_allRecords_def match_tfidfResults_def
      match_maxTfidf_def match_pageHost_def match_history_def vectorize_def
      folderFreq_of_def totalFolderUploads_of_def historyMap_of_def rank_record_def
      Map_get_def historyCount_of_def historyBoost_of_def folderBoost_of_def weights_of_def
      example_file_def example_overlaps Array_sort_def)

text \<open>Claim C4 on two records, of which one matches the query text by its name.\<close>

theorem handleMatch_sorted_positive_top5_witness:
  "handleMatch tokenize (\<lambda>u. Some u) [] []
     [example_file ''notes'' ''text/plain'' [], example_file ''resume'' ''application/pdf'' []]
     [] 0 \<lparr>req_context = ''resume'', req_accept = None, req_pageUrl = None\<rparr> =
   [\<lparr>res_id = ''resume'', res_name = ''resume'', res_path = ''resume'',
     res_type = ''application/pdf'', res_score = Fin 0.44, res_historyCount = 0\<rparr>] \<and>
   sorted_wrt (\<lambda>a b. res_score b \<le> res_score a)
     (handleMatch tokenize (\<lambda>u. Some u) [] []
        [example_file ''notes'' ''text/plain'' [], example_file ''resume'' ''application/pdf'' []]
        [] 0 \<lparr>req_context = ''resume'', req_accept = None, req_pageUrl = None\<rparr>) \<and>
   Fin 0 < res_score \<lparr>res_id = ''resume'', res_name = ''resume'', res_path = ''resume'',
     res_type = ''application/pdf'', res_score = Fin 0.44, res_historyCount = 0\<rparr> \<and>
   length (handleMatch tokenize (\<lambda>u. Some u) [] []
     [example_file ''notes'' ''text/plain'' [], example_file ''resume'' ''application/pdf'' []]
     [] 0 \<lparr>req_context = ''resume'', req_accept = None, req_pageUrl = None\<rparr>) \<le> 5"
proof -
  let ?item = "\<lparr>res_id = ''resume'', res_name = ''resume'', res_path = ''resume'',
     res_type = ''application/pdf'', res_score = Fin 0.44, res_historyCount = 0\<rparr>"
  let ?results = "handleMatch tokenize (\<lambda>u. Some u) [] []
     [example_file ''notes'' ''text/plain'' [], example_file ''resume'' ''application/pdf'' []]
     [] 0 \<lparr>req_context = ''resume'', req_accept = None, req_pageUrl = None\<rparr>"
  have e: "?results = [?item]" by (rule example_handleMatch)
  then have m: "?item \<in> set ?results" by simp
  from handleMatch_sorted_positive_top5 [of tokenize "\<lambda>u. Some u" "[]" "[]"
     "[example_file ''notes'' ''text/plain'' [], example_file ''resume'' ''application/pdf'' []]"
     "[]" 0 "\<lparr>req_context = ''resume'', req_accept = None, req_pageUrl = None\<rparr>"]
  have "sorted_wrt (\<lambda>a b. res_score b \<le> res_score a) ?results"
    and "\<forall>r \<in> set ?results. Fin 0 < res_score r"
    and "length ?results \<le> 5"
    by blast+
  with e m show ?thesis by blast
qed

subsection \<open>The fallback to all records\<close>

lemma number_le_not_less: "(a :: number) \<le> b \<Longrightarrow> \<not> b < a"
  by (cases a; cases b) simp_all

lemma not_useful:
  assumes "queryVec = [] \<or> match_maxTfidf (match_tfidfResults queryVec all accept) \<le> Fin 0.05"
  shows "\<not> Fin 0.05 < match_maxTfidf (match_tfidfResults queryVec all accept)"
  using assms
proof
  assume "queryVec = []"
  then show ?thesis by (simp add: match_tfidfResults_def match_maxTfidf_def)
next
  assume "match_maxTfidf (match_tfidfResults queryVec all accept) \<le> Fin 0.05"
  then show ?thesis by (rule number_le_not_less)
qed

text \<open>
  Claim C10: when the query vector is empty, or the greatest score of the search results
  (0 when there are none) is at most 0.05, the candidates of \<^verbatim>\<open>handleMatch\<close> are all
  stored records, each with content score 0, whatever the accept filter; the ranked list
  then holds every stored record.
\<close>

theorem tfidf_fallback_ranks_all:
  "(queryVec = [] \<or> match_maxTfidf (match_tfidfResults queryVec all accept) \<le> Fin 0.05 \<longrightarrow>
      match_allRecords queryVec all accept = map (\<lambda>record. \<lparr>srecord = record, score = Fin 0\<rparr>) all) \<and>
   (vectorize vocabulary idfValues (tokenize (req_context req)) = [] \<or>
    match_maxTfidf (match_tfidfResults (vectorize vocabulary idfValues (tokenize (req_context req)))
                      all (req_accept req)) \<le> Fin 0.05 \<longrightarrow>
      map rk_record (match_ranked tf hn vocabulary idfValues all historyStore now req) = all)"
proof (intro conjI impI)
  assume "queryVec = [] \<or> match_maxTfidf (match_tfidfResults queryVec all accept) \<le> Fin 0.05"
  then have "\<not> Fin 0.05 < match_maxTfidf (match_tfidfResults queryVec all accept)"
    by (rule not_useful)
  then show "match_allRecords queryVec all accept = map (\<lambda>record. \<lparr>srecord = record, score = Fin 0\<rparr>) all"
    by (simp add: match_allRecords_def Let_def)
next
  let ?q = "vectorize vocabulary idfValues (tokenize (req_context req))"
  assume "?q = [] \<or> match_maxTfidf (match_tfidfResults ?q all (req_accept req)) \<le> Fin 0.05"
  then have "\<not> Fin 0.05 < match_maxTfidf (match_tfidfResults ?q all (req_accept req))"
    by (rule not_useful)
  then have "match_allRecords ?q all (req_accept req) = map (\<lambda>record. \<lparr>srecord = record, score = Fin 0\<rparr>) all"
    by (simp add: match_allRecords_def Let_def)
  then show "map rk_record (match_ranked tf hn vocabulary idfValues all historyStore now req) = all"
    by (simp add: match_ranked_def Let_def rank_record_def comp_def)
qed

lemma example_search_empty:
  "search [1, 0] [example_file ''a.pdf'' ''application/pdf'' [0, 1],
                  example_file ''b.jpg'' ''image/jpeg'' [0, 1]] 15 (Some ''.pdf'') = []"
proof -
  have v: "vector (example_file ''a.pdf'' ''application/pdf'' [0, 1]) = [0, 1]"
    by (simp add: example_file_def)
  show ?thesis
    by (simp add: search_def search_candidates_Some example_accept_pdf scored_def Array_sort_def
        cosine_example_4 v)
qed

text \<open>
  Claim C10 on two records, neither similar to the query, with a filter that matches only
  the first: both are candidates.
\<close>

theorem tfidf_fallback_ranks_all_witness:
  "match_maxTfidf (match_tfidfResults [1, 0]
       [example_file ''a.pdf'' ''application/pdf'' [0, 1], example_file ''b.jpg'' ''image/jpeg'' [0, 1]]
       (Some ''.pdf'')) \<le> Fin 0.05 \<and>
   match_allRecords [1, 0]
       [example_file ''a.pdf'' ''application/pdf'' [0, 1], example_file ''b.jpg'' ''image/jpeg'' [0, 1]]
       (Some ''.pdf'') =
     [\<lparr>srecord = example_file ''a.pdf'' ''application/pdf'' [0, 1], score = Fin 0\<rparr>,
      \<lparr>srecord = example_file ''b.jpg'' ''image/jpeg'' [0, 1], score = Fin 0\<rparr>] \<and>
   vectorize [] [] (tokenize (req_context \<lparr>req_context = ''resume'', req_accept = Some ''.pdf'', req_pageUrl = None\<rparr>)) = [] \<and>
   map rk_record (match_ranked tokenize (\<lambda>u. Some u) [] []
       [example_file ''a.pdf'' ''application/pdf'' [0, 1], example_file ''b.jpg'' ''image/jpeg'' [0, 1]]
       [] 0 \<lparr>req_context = ''resume'', req_accept = Some ''.pdf'', req_pageUrl = None\<rparr>) =
     [example_file ''a.pdf'' ''application/pdf'' [0, 1], example_file ''b.jpg'' ''image/jpeg'' [0, 1]]"
proof -
  have m: "match_maxTfidf (match_tfidfResults [1, 0]
       [example_file ''a.pdf'' ''application/pdf'' [0, 1], example_file ''b.jpg'' ''image/jpeg'' [0, 1]]
       (Some ''.pdf'')) \<le> Fin 0.05"
    by (simp add: match_tfidfResults_def match_maxTfidf_def example_search_empty)
  have v: "vectorize [] [] (tokenize (req_context \<lparr>req_context = ''resume'', req_accept = Some ''.pdf'', req_pageUrl = None\<rparr>)) = []"
    by (simp add: vectorize_def)
  from tfidf_fallback_ranks_all [of "[1, 0]"
       "[example_file ''a.pdf'' ''application/pdf'' [0, 1], example_file ''b.jpg'' ''image/jpeg'' [0, 1]]"
       "Some ''.pdf''" "[]" "[]" "\<lparr>req_context = ''resume'', req_accept = Some ''.pdf'', req_pageUrl = None\<rparr>"
       tokenize "\<lambda>u. Some u" "[]" 0] m v
  show ?thesis by simp
qed

end
